theory Spec2Isabelle
  imports Complex_Main "HOL-Library.AList" "HOL-Library.Char_ord" "HOL-Library.List_Lexorder"
    "HOL-Library.Multiset"
begin

section \<open>JavaScript values\<close>

text \<open>
  The component registry of \<^verbatim>\<open>src/lib/utils.js\<close> works on documents loaded from JSON
  files. A JavaScript number is a double: it is \<open>NaN\<close>, an infinity, or a finite value,
  and every finite double is a rational number, so the comparisons \<open>==\<close> and \<open>>\<close>
  of the source are exact on \<open>rat\<close>. An object is its list of own properties in insertion
  order. Strings are Isabelle strings.
\<close>

datatype jsnum = NaN | NegInf | Fin rat | PosInf

datatype jsval =
    JUndefined
  | JNull
  | JBool bool
  | JNum jsnum
  | JStr string
  | JArr "jsval list"
  | JObj "(string \<times> jsval) list"

text \<open>The comparison \<open>x > y\<close> on numbers; anything compared with \<open>NaN\<close> is false.\<close>

fun num_gt :: "jsnum \<Rightarrow> jsnum \<Rightarrow> bool" where
  "num_gt NaN _ = False"
| "num_gt _ NaN = False"
| "num_gt NegInf _ = False"
| "num_gt (Fin a) NegInf = True"
| "num_gt (Fin a) (Fin b) = (a > b)"
| "num_gt (Fin a) PosInf = False"
| "num_gt PosInf PosInf = False"
| "num_gt PosInf _ = True"

text \<open>The comparison \<open>x == y\<close> on numbers.\<close>

fun num_eq :: "jsnum \<Rightarrow> jsnum \<Rightarrow> bool" where
  "num_eq NaN _ = False"
| "num_eq _ NaN = False"
| "num_eq x y = (x = y)"

definition isNaN :: "jsnum \<Rightarrow> bool" where
  "isNaN n = (n = NaN)"

text \<open>The conversion to boolean that \<open>if (v)\<close>, \<open>!v\<close> and \<open>v || w\<close> apply.\<close>

fun truthy :: "jsval \<Rightarrow> bool" where
  "truthy JUndefined = False"
| "truthy JNull = False"
| "truthy (JBool b) = b"
| "truthy (JNum NaN) = False"
| "truthy (JNum (Fin r)) = (r \<noteq> 0)"
| "truthy (JNum _) = True"
| "truthy (JStr s) = (s \<noteq> [])"
| "truthy (JArr _) = True"
| "truthy (JObj _) = True"

text \<open>
  \<open>obj[key]\<close> on an object: the value of the own property, \<open>undefined\<close> when there
  is none. The registry reads properties of definition documents only, which are objects;
  on any other value the model answers \<open>undefined\<close>.
\<close>

fun getProp :: "jsval \<Rightarrow> string \<Rightarrow> jsval" where
  "getProp (JObj fs) k = (case map_of fs k of Some v \<Rightarrow> v | None \<Rightarrow> JUndefined)"
| "getProp _ k = JUndefined"

definition hasOwnProperty :: "(string \<times> jsval) list \<Rightarrow> string \<Rightarrow> bool" where
  "hasOwnProperty fs k = (map_of fs k \<noteq> None)"

text \<open>\<open>String.prototype.toLowerCase\<close>, on the ASCII letters.\<close>

definition toLowerChar :: "char \<Rightarrow> char" where
  "toLowerChar c =
     (case map_of (zip ''ABCDEFGHIJKLMNOPQRSTUVWXYZ'' ''abcdefghijklmnopqrstuvwxyz'') c of
        Some d \<Rightarrow> d
      | None \<Rightarrow> c)"

definition toLowerCase :: "string \<Rightarrow> string" where
  "toLowerCase s = map toLowerChar s"

section \<open>\<open>utils.parseBoolean\<close>\<close>

text \<open>
  \<^verbatim>\<open>
  utils.parseBoolean = function (obj, defaultValue) {
      switch (typeof obj) {
          case 'boolean': return obj;
          case 'number':  return (obj > 0);
          case 'string':
              var objLowerCased = obj.toLowerCase();
              return ((objLowerCased == "true") || (objLowerCased == "yes"));
          default:
              return (obj == null) ? ((defaultValue == null) ? false : defaultValue) : true;
      }
  };
  \<close>
  The default value is a boolean that may be absent (\<open>None\<close> is \<open>undefined\<close> or
  \<open>null\<close>), as its JSDoc type \<open>{boolean} [defaultValue=false]\<close> says.
\<close>

fun parseBoolean :: "jsval \<Rightarrow> bool option \<Rightarrow> bool" where
  "parseBoolean (JBool b) defaultValue = b"
| "parseBoolean (JNum n) defaultValue = num_gt n (Fin 0)"
| "parseBoolean (JStr s) defaultValue =
     (let objLowerCased = toLowerCase s
      in objLowerCased = ''true'' \<or> objLowerCased = ''yes'')"
| "parseBoolean JUndefined defaultValue =
     (case defaultValue of None \<Rightarrow> False | Some d \<Rightarrow> d)"
| "parseBoolean JNull defaultValue =
     (case defaultValue of None \<Rightarrow> False | Some d \<Rightarrow> d)"
| "parseBoolean (JArr xs) defaultValue = True"
| "parseBoolean (JObj fs) defaultValue = True"

section \<open>Components and the store\<close>

text \<open>
  The components of one type are objects that refer to each other (\<open>parents\<close>,
  \<open>children\<close>) and are updated in place, so the model keeps them in a store: an
  address is a reference to a component, and the store gives the current state of the
  object at every address. \<open>models.js\<close>, which declares \<open>UIComponent\<close>, is not among the
  sources; its fields are those that \<^verbatim>\<open>utils.js\<close> reads and writes.
\<close>

type_synonym addr = nat

record uiComponent =
  fullName :: string
  shortName :: string
  path :: string
  uiType :: string
  definitionDoc :: jsval
  templateFilePath :: "string option"
  scriptFilePath :: "string option"
  parents :: "addr list"
  children :: "addr list"
  disabled :: "bool option"
  index :: "nat option"

type_synonym store = "addr \<Rightarrow> uiComponent"

text \<open>
  Modelled from the spec: the constructor \<open>models.UIComponent\<close> (\<open>models.js\<close> is not
  among the sources). A new component has no parents and no children (the spec's
  \<open>parents\<close> is "empty if no inheritance", \<open>children\<close> is "populated by the resolver
  walk"), and its other fields are not set yet.
\<close>

definition new_UIComponent :: uiComponent where
  "new_UIComponent =
     \<lparr>fullName = [], shortName = [], path = [], uiType = [],
      definitionDoc = JUndefined, templateFilePath = None, scriptFilePath = None,
      parents = [], children = [], disabled = None, index = None\<rparr>"

text \<open>
  The names of \<open>constants.js\<close>, which is not among the sources either: the keys of the
  definition documents and the directories of the application. Every function below
  takes them as the parameter \<open>K\<close>.
\<close>

record constants =
  DIRECTORY_APP_COMPONENTS :: string
  DIRECTORY_APP_LAYOUTS :: string
  DIRECTORY_APP_DIVS :: string
  DIRECTORY_APP_PAGES :: string
  UI_COMPONENT_DEFINITION_VERSION :: string
  UI_COMPONENT_DEFINITION_INDEX :: string
  UI_COMPONENT_DEFINITION_EXTENDS :: string
  UI_COMPONENT_DEFINITION_DISABLED :: string
  PAGE_DEFINITION_URI :: string
  PAGE_DEFINITION_LAYOUT :: string
  DIV_DEFINITION_PUSHED_URIS :: string
  APP_CONF_CACHE_ENABLED :: string

text \<open>
  Three functions of the JavaScript runtime are parameters as well (\<open>H\<close>): the global
  function \<open>parseInt\<close>, which gives a number or \<open>NaN\<close>; the conversion of a value
  that is not a string to a property key in \<open>obj[value]\<close> (a string is its own key);
  and \<open>String.prototype.localeCompare\<close>, the collation of the host's locale, which
  gives a negative number, zero or a positive number as the receiver sorts before the
  argument, with it, or after it. A collation can give zero for two strings that differ.
\<close>

record host =
  parseInt :: "jsval \<Rightarrow> jsnum"
  toString :: "jsval \<Rightarrow> string"
  localeCompare :: "string \<Rightarrow> string \<Rightarrow> int"

fun propertyKey :: "host \<Rightarrow> jsval \<Rightarrow> string" where
  "propertyKey H (JStr s) = s"
| "propertyKey H v = toString H v"

section \<open>\<open>compareRawUiComponents\<close>\<close>

text \<open>
  \<open>Array.prototype.indexOf\<close> searches with strict equality (\<open>===\<close>). An element of a
  \<open>children\<close> array is a reference to a component (\<^verbatim>\<open>parentComponent.children.push(component)\<close>);
  the value searched for can be a reference or a string. A reference and a string are
  never strictly equal.
\<close>

datatype jsref = Ref addr | Str string

fun strictEquals :: "jsref \<Rightarrow> jsref \<Rightarrow> bool" where
  "strictEquals (Ref a) (Ref b) = (a = b)"
| "strictEquals (Str s) (Str t) = (s = t)"
| "strictEquals _ _ = False"

fun indexOf_from :: "jsref list \<Rightarrow> jsref \<Rightarrow> int \<Rightarrow> int" where
  "indexOf_from [] v i = - 1"
| "indexOf_from (x # xs) v i = (if strictEquals x v then i else indexOf_from xs v (i + 1))"

definition indexOf :: "jsref list \<Rightarrow> jsref \<Rightarrow> int" where
  "indexOf xs v = indexOf_from xs v 0"

text \<open>
  \<^verbatim>\<open>
  function compareRawUiComponents(a, b) {
      var tmpIndex = parseInt(a.definition[constants.UI_COMPONENT_DEFINITION_INDEX]);
      var aIndex = isNaN(tmpIndex) ? 1000000 : tmpIndex;
      tmpIndex = parseInt(b.definition[constants.UI_COMPONENT_DEFINITION_INDEX]);
      var bIndex = isNaN(tmpIndex) ? 1000000 : tmpIndex;
      if (aIndex == bIndex) {
          if (aIndex == 1000000) {
              return a.fullName.localeCompare(b.fullName);
          }
          if (a.children.indexOf(b.fullName) >= 0) {
              // 'b' is a child of 'a', hence 'b' should come before 'a'
              return 1;
          } else if (b.children.indexOf(a.fullName) >= 0) {
              // 'a' is a child of 'b', hence 'a' should come before 'b'
              return -1;
          } else {
              return a.fullName.localeCompare(b.fullName);
          }
      }
      return (aIndex > bIndex) ? 1 : -1;
  }
  \<close>
\<close>

definition compareRawUiComponents :: "constants \<Rightarrow> host \<Rightarrow> uiComponent \<Rightarrow> uiComponent \<Rightarrow> int" where
  "compareRawUiComponents K H a b =
     (let tmpIndex = parseInt H (getProp (definitionDoc a) (UI_COMPONENT_DEFINITION_INDEX K));
          aIndex = (if isNaN tmpIndex then Fin 1000000 else tmpIndex);
          tmpIndex = parseInt H (getProp (definitionDoc b) (UI_COMPONENT_DEFINITION_INDEX K));
          bIndex = (if isNaN tmpIndex then Fin 1000000 else tmpIndex)
      in if num_eq aIndex bIndex then
           (if num_eq aIndex (Fin 1000000) then localeCompare H (fullName a) (fullName b)
            else if indexOf (map Ref (children a)) (Str (fullName b)) \<ge> 0 then 1
            else if indexOf (map Ref (children b)) (Str (fullName a)) \<ge> 0 then - 1
            else localeCompare H (fullName a) (fullName b))
         else (if num_gt aIndex bIndex then 1 else - 1))"

text \<open>
  \<open>Array.prototype.sort\<close> with a comparison function, modelled as a stable insertion
  sort. Where the comparison function is a consistent order every sorting algorithm gives
  the same array up to the order of elements that compare equal.
\<close>

fun insertSorted :: "('a \<Rightarrow> 'a \<Rightarrow> int) \<Rightarrow> 'a \<Rightarrow> 'a list \<Rightarrow> 'a list" where
  "insertSorted cmp x [] = [x]"
| "insertSorted cmp x (y # ys) =
     (if cmp x y \<le> 0 then x # y # ys else y # insertSorted cmp x ys)"

definition sortArray :: "('a \<Rightarrow> 'a \<Rightarrow> int) \<Rightarrow> 'a list \<Rightarrow> 'a list" where
  "sortArray cmp xs = foldr (insertSorted cmp) xs []"


section \<open>The file system\<close>

text \<open>
  The registry reads the file system through \<open>File\<close> objects and \<open>require\<close>. The model
  takes the file system as a value: the listing of a directory, whether a path exists,
  whether it is a directory, and the document that \<open>require\<close> loads from a definition
  file, which is a JSON object (the spec's "ordered mapping of string keys to values")
  given by its properties.
\<close>

record fileEntry =
  getName :: string
  isDirectory :: bool

record fileSystem =
  listFiles :: "string \<Rightarrow> fileEntry list"
  isExists :: "string \<Rightarrow> bool"
  pathIsDirectory :: "string \<Rightarrow> bool"
  require :: "string \<Rightarrow> (string \<times> jsval) list"

text \<open>\<open>s.lastIndexOf(c)\<close>: the position of the last \<open>c\<close> in \<open>s\<close>, or \<open>-1\<close>.\<close>

fun lastIndexOf_from :: "string \<Rightarrow> char \<Rightarrow> int \<Rightarrow> int \<Rightarrow> int" where
  "lastIndexOf_from [] c i found = found"
| "lastIndexOf_from (x # xs) c i found =
     lastIndexOf_from xs c (i + 1) (if x = c then i else found)"

definition lastIndexOf :: "string \<Rightarrow> char \<Rightarrow> int" where
  "lastIndexOf s c = lastIndexOf_from s c 0 (- 1)"

text \<open>
  \<open>s.substr(start)\<close> and \<open>s.substr(start, length)\<close>, for the starts the registry uses
  (zero or more): a length that is not positive gives the empty string.
\<close>

definition substr :: "string \<Rightarrow> int \<Rightarrow> string" where
  "substr s start = drop (nat start) s"

definition substr2 :: "string \<Rightarrow> int \<Rightarrow> int \<Rightarrow> string" where
  "substr2 s start len = (if len \<le> 0 then [] else take (nat len) (drop (nat start) s))"

text \<open>
  The result \<^verbatim>\<open>{map: uiComponentsMap, array: uiComponentsList}\<close> after
  \<^verbatim>\<open>uiComponentsList.sort(compareRawUiComponents)\<close>, with the store of the objects.
\<close>

record componentsData =
  cmap :: "string \<rightharpoonup> addr"
  array :: "addr list"
  cobjects :: store

text \<open>
  Modelled from the spec: the constructor \<open>models.Layout(fullName, path)\<close> (\<open>models.js\<close>
  is not among the sources): a layout is its full name and the path of its template.
\<close>

record layout =
  layoutFullName :: string
  layoutPath :: string

text \<open>
  The lookup table that \<open>utils.getLookupTable\<close> builds,
  \<^verbatim>\<open>{layouts, pages, uriPagesMap, divs, pushedDivs, uiComponents}\<close>. The divs and the
  pages are two families of objects, each with its own store; a value of the map
  \<open>uiComponents\<close> is a reference to a div or to a page.
\<close>

datatype componentRef = DivRef addr | PageRef addr

record lookupTable =
  layouts :: "string \<rightharpoonup> layout"
  pages :: "string \<rightharpoonup> addr"
  uriPagesMap :: "string \<rightharpoonup> string"
  divs :: "string \<rightharpoonup> addr"
  pushedDivs :: "string \<rightharpoonup> string list"
  uiComponents :: "string \<rightharpoonup> componentRef"
  divObjects :: store
  pageObjects :: store

text \<open>
  The methods \<open>equals\<close> and \<open>compareTo\<close> of \<open>UIComponent\<close> are declared in \<open>models.js\<close>,
  which is not among the sources: \<open>utils.getFurthestChild\<close> takes them as the parameter
  \<open>M\<close>. They get the store and the references of the receiver and of the argument
  (the argument of \<open>compareTo\<close> can be \<open>null\<close>).
\<close>

record models =
  equals :: "store \<Rightarrow> addr \<Rightarrow> addr \<Rightarrow> bool"
  compareTo :: "store \<Rightarrow> addr \<Rightarrow> addr option \<Rightarrow> int"

section \<open>Errors\<close>

text \<open>
  Every \<open>throw new Error(...)\<close> of the registry build is a value of \<open>error\<close>, with the
  names its message is built from. A validation that fails gives its reason.
\<close>

datatype reason =
    NoVersion
  | NoUri
  | NoLayout
  | LayoutDoesNotExist
  | PushedUrisNotAnArray

datatype error =
    InvalidComponentName string string
  | MissingDefinitionFile string string
  | MissingParentComponent string string
  | InvalidDefinition string reason
  | PageUriCollision string string string
  | TypeError

section \<open>The registry under construction\<close>

text \<open>
  The map of the components by full name, their list in the order of discovery, and the
  store of the objects. A new component is allocated at the first address that is not
  in use, which is the number of components created so far.
\<close>

record registry =
  uiComponentsMap :: "string \<rightharpoonup> addr"
  uiComponentsList :: "addr list"
  objects :: store

definition emptyRegistry :: registry where
  "emptyRegistry = \<lparr>uiComponentsMap = Map.empty, uiComponentsList = [], objects = (\<lambda>a. new_UIComponent)\<rparr>"

section \<open>\<open>extend\<close>: merging a child definition with its parent's\<close>

text \<open>
  \<^verbatim>\<open>
  function extend(child, parent) {
      child = child || {};
      for (var propertyName in parent) {
          if (!parent.hasOwnProperty(propertyName)) { continue; }
          var propertyValue = parent[propertyName];
          if (Array.isArray(propertyValue)) {
              child[propertyName] = propertyValue;
          } else if (typeof propertyValue === 'object') {
              child[propertyName] = extend(child[propertyName], propertyValue);
          } else if (!child.hasOwnProperty(propertyName)) {
              child[propertyName] = propertyValue;
          }
      }
      return child;
  }
  \<close>
  The loop runs over the own properties of the parent, in order (\<open>extend_props\<close>, on
  the properties of the child); \<open>typeof\<close> is \<open>'object'\<close> for objects and for
  \<open>null\<close>, and a \<open>for-in\<close> over \<open>null\<close> has no iteration. In every call the
  registry makes the parent is an object or \<open>null\<close>: it is a definition document or,
  in the recursion, a value whose \<open>typeof\<close> is \<open>'object'\<close> and that is no array.

  When the child is a truthy value that is not an object, the assignments
  \<open>child[propertyName] = ...\<close> are dropped if it is a primitive (a string, a number or
  \<open>true\<close>) and add named properties to the array object if it is an array. The registry
  reads of such a value whether it is truthy, whether it is an array, and the elements of
  the array, so the model returns such a child as it is; it leaves aside a parent object
  whose keys are indices of the child array. For a parent that is neither an object nor
  \<open>null\<close> the equations below only give \<open>child || {}\<close>; the registry makes no such call.
\<close>

function extend :: "jsval \<Rightarrow> jsval \<Rightarrow> jsval"
  and extend_props :: "(string \<times> jsval) list \<Rightarrow> (string \<times> jsval) list \<Rightarrow> (string \<times> jsval) list"
where
  "extend child (JObj pf) =
     (case (if truthy child then child else JObj []) of
        JObj cf \<Rightarrow> JObj (extend_props cf pf)
      | c \<Rightarrow> c)"
| "extend child JNull = (if truthy child then child else JObj [])"
| "extend child JUndefined = (if truthy child then child else JObj [])"
| "extend child (JBool b) = (if truthy child then child else JObj [])"
| "extend child (JNum n) = (if truthy child then child else JObj [])"
| "extend child (JStr s) = (if truthy child then child else JObj [])"
| "extend child (JArr xs) = (if truthy child then child else JObj [])"
| "extend_props cf [] = cf"
| "extend_props cf ((propertyName, propertyValue) # ps) =
     extend_props
       (case propertyValue of
          JArr xs \<Rightarrow> AList.update propertyName propertyValue cf
        | JObj qf \<Rightarrow>
            AList.update propertyName (extend (getProp (JObj cf) propertyName) propertyValue) cf
        | JNull \<Rightarrow>
            AList.update propertyName (extend (getProp (JObj cf) propertyName) propertyValue) cf
        | _ \<Rightarrow>
            if \<not> hasOwnProperty cf propertyName
            then AList.update propertyName propertyValue cf
            else cf)
       ps"
  by pat_completeness auto
termination
  by (relation "measure (\<lambda>x. case x of
         Inl (child, parent) \<Rightarrow> size parent
       | Inr (cf, ps) \<Rightarrow> size_list (size_prod (\<lambda>_. 0) size) ps)") auto


section \<open>Discovery: \<open>populateComponentCollections\<close>\<close>

text \<open>
  \<^verbatim>\<open>
  for (var i = 0; i < numberOfFiles; i++) {
      var componentDirectory = componentsDirectories[i];
      if (!componentDirectory.isDirectory()) { continue; }
      var componentFullName = componentDirectory.getName();
      var componentShortName = componentFullName.substr(componentFullName.lastIndexOf(".") + 1);
      if (!componentShortName || (componentShortName.length == 0)) {
          throw new Error("Name '" + componentFullName + "' of " + componentType + " is invalid. ...");
      }
      var componentPath = componentsPath + "/" + componentFullName;
      var uiComponent = new models.UIComponent();
      uiComponent.fullName = componentFullName;
      uiComponent.shortName = componentShortName;
      uiComponent.path = componentPath;
      uiComponent.type = componentType;
      var templateFile = new File(componentPath + "/" + componentShortName + ".hbs");
      if (templateFile.isExists() && !templateFile.isDirectory()) {
          uiComponent.templateFilePath = templateFile.getPath();
      }
      var scriptFile = new File(componentPath + "/" + componentShortName + ".js");
      if (scriptFile.isExists() && !scriptFile.isDirectory()) {
          uiComponent.scriptFilePath = scriptFile.getPath();
      }
      var definitionFile = new File(componentPath + "/" + componentShortName + ".json");
      if (!definitionFile.isExists() || definitionFile.isDirectory()) {
          throw new Error("Definition file of " + componentType + " '" + componentFullName + "' does not exists.");
      } else {
          uiComponent.definition = require(definitionFile.getPath());
      }
      uiComponentsMap[componentFullName] = uiComponent;
      uiComponentsList.push(uiComponent);
  }
  \<close>
\<close>

definition isFile :: "fileSystem \<Rightarrow> string \<Rightarrow> bool" where
  "isFile fs p = (isExists fs p \<and> \<not> pathIsDirectory fs p)"

fun populateLoop :: "fileSystem \<Rightarrow> string \<Rightarrow> string \<Rightarrow> fileEntry list \<Rightarrow> registry \<Rightarrow> error + registry" where
  "populateLoop fs componentsPath componentType [] r = Inr r"
| "populateLoop fs componentsPath componentType (componentDirectory # rest) r =
     (if \<not> isDirectory componentDirectory
      then populateLoop fs componentsPath componentType rest r
      else
        let componentFullName = getName componentDirectory;
            componentShortName =
              substr componentFullName (lastIndexOf componentFullName (CHR ''.'') + 1)
        in if componentShortName = []
           then Inl (InvalidComponentName componentType componentFullName)
           else
             let componentPath = componentsPath @ ''/'' @ componentFullName;
                 templateFile = componentPath @ ''/'' @ componentShortName @ ''.hbs'';
                 scriptFile = componentPath @ ''/'' @ componentShortName @ ''.js'';
                 definitionFile = componentPath @ ''/'' @ componentShortName @ ''.json''
             in if \<not> isExists fs definitionFile \<or> pathIsDirectory fs definitionFile
                then Inl (MissingDefinitionFile componentType componentFullName)
                else
                  let uiComponent = new_UIComponent
                        \<lparr>fullName := componentFullName,
                         shortName := componentShortName,
                         path := componentPath,
                         uiType := componentType,
                         definitionDoc := JObj (require fs definitionFile),
                         templateFilePath :=
                           (if isFile fs templateFile then Some templateFile else None),
                         scriptFilePath :=
                           (if isFile fs scriptFile then Some scriptFile else None)\<rparr>;
                      a = length (uiComponentsList r)
                  in populateLoop fs componentsPath componentType rest
                       \<lparr>uiComponentsMap = (uiComponentsMap r)(componentFullName \<mapsto> a),
                        uiComponentsList = uiComponentsList r @ [a],
                        objects = (objects r)(a := uiComponent)\<rparr>)"

definition populateComponentCollections ::
  "fileSystem \<Rightarrow> string \<Rightarrow> string \<Rightarrow> registry \<Rightarrow> error + registry" where
  "populateComponentCollections fs componentsPath componentType r =
     populateLoop fs componentsPath componentType (listFiles fs componentsPath) r"


section \<open>Inheritance: \<open>getUiComponentsData\<close>\<close>

text \<open>
  \<^verbatim>\<open>
  for (var i = 0; i < numberOfFiles; i++) {
      var componentCollectionDirectory = componentsCollectionDirectories[i];
      if (!componentCollectionDirectory.isDirectory()) { continue; }
      var componentCollectionName = componentCollectionDirectory.getName();
      var componentCollectionDirectoryPath = constants.DIRECTORY_APP_COMPONENTS + '/'
                                             + componentCollectionName + componentsPath;
      populateComponentCollections(componentCollectionDirectoryPath, componentType,
                                   uiComponentsMap, uiComponentsList);
  }
  \<close>
\<close>

fun collectionsLoop ::
  "constants \<Rightarrow> fileSystem \<Rightarrow> string \<Rightarrow> string \<Rightarrow> fileEntry list \<Rightarrow> registry \<Rightarrow> error + registry" where
  "collectionsLoop K fs componentType componentsPath [] r = Inr r"
| "collectionsLoop K fs componentType componentsPath (componentCollectionDirectory # rest) r =
     (if \<not> isDirectory componentCollectionDirectory
      then collectionsLoop K fs componentType componentsPath rest r
      else
        let componentCollectionName = getName componentCollectionDirectory;
            componentCollectionDirectoryPath =
              DIRECTORY_APP_COMPONENTS K @ ''/'' @ componentCollectionName @ componentsPath
        in case populateComponentCollections fs componentCollectionDirectoryPath componentType r of
             Inl e \<Rightarrow> Inl e
           | Inr r' \<Rightarrow> collectionsLoop K fs componentType componentsPath rest r')"

text \<open>
  \<^verbatim>\<open>
  var parentComponentFullName = componentDefinition[extendsKey];
  while (parentComponentFullName) {
      var parentComponent = uiComponentsMap[parentComponentFullName];
      if (!parentComponent) {
          var immediateChild = (componentParents.length == 0) ? componentFullName :
                               componentParents[componentParents.length - 1];
          throw new Error("Parent " + componentType + " '" + parentComponentFullName + "' of "
                          + componentType + " '" + immediateChild + "' does not exists.");
      }
      parentComponent.children.push(component);
      componentParents.push(parentComponent);
      componentDefinition = extend(componentDefinition, parentComponent.definition);
      parentComponentFullName = parentComponent.definition[extendsKey];
  }
  \<close>
  Nothing bounds the loop: on a cycle of \<open>extends\<close> references it runs forever, and
  then the model gives \<open>None\<close>. The definition of the component is an object, hence
  truthy, so \<open>extend\<close> updates it in place; the three updates of the store are made in
  the order of the source, each on the store the one before has left (the parent can be
  the component itself).
\<close>

partial_function (option) inheritanceLoop ::
  "constants \<Rightarrow> host \<Rightarrow> (string \<rightharpoonup> addr) \<Rightarrow> addr \<Rightarrow> jsval \<Rightarrow> store \<Rightarrow> (error + store) option" where
  "inheritanceLoop K H m component parentComponentFullName h =
     (if \<not> truthy parentComponentFullName then Some (Inr h)
      else
        case m (propertyKey H parentComponentFullName) of
          None \<Rightarrow>
            Some (Inl (MissingParentComponent (propertyKey H parentComponentFullName)
                    (if parents (h component) = [] then fullName (h component)
                     else fullName (h (last (parents (h component)))))))
        | Some parentComponent \<Rightarrow>
            let h1 = h(parentComponent :=
                       (h parentComponent)\<lparr>children := children (h parentComponent) @ [component]\<rparr>);
                h2 = h1(component :=
                       (h1 component)\<lparr>parents := parents (h1 component) @ [parentComponent]\<rparr>);
                h3 = h2(component :=
                       (h2 component)\<lparr>definitionDoc :=
                          extend (definitionDoc (h2 component)) (definitionDoc (h2 parentComponent))\<rparr>)
            in inheritanceLoop K H m component
                 (getProp (definitionDoc (h3 parentComponent)) (UI_COMPONENT_DEFINITION_EXTENDS K)) h3)"

text \<open>
  \<^verbatim>\<open>
  for (i = 0; i < numberOfComponents; i++) {
      var component = uiComponentsList[i];
      ...
      var componentDefinition = component.definition;
      var parentComponentFullName = componentDefinition[extendsKey];
      while (parentComponentFullName) { ... }
  }
  \<close>
\<close>

declare inheritanceLoop.simps [code]

fun chainingLoop ::
  "constants \<Rightarrow> host \<Rightarrow> (string \<rightharpoonup> addr) \<Rightarrow> addr list \<Rightarrow> store \<Rightarrow> (error + store) option" where
  "chainingLoop K H m [] h = Some (Inr h)"
| "chainingLoop K H m (component # rest) h =
     (case inheritanceLoop K H m component
             (getProp (definitionDoc (h component)) (UI_COMPONENT_DEFINITION_EXTENDS K)) h of
        None \<Rightarrow> None
      | Some (Inl e) \<Rightarrow> Some (Inl e)
      | Some (Inr h') \<Rightarrow> chainingLoop K H m rest h')"

definition getUiComponentsData ::
  "constants \<Rightarrow> host \<Rightarrow> fileSystem \<Rightarrow> string \<Rightarrow> string \<Rightarrow> (error + componentsData) option" where
  "getUiComponentsData K H fs componentType componentsPath =
     (case collectionsLoop K fs componentType componentsPath
             (listFiles fs (DIRECTORY_APP_COMPONENTS K)) emptyRegistry of
        Inl e \<Rightarrow> Some (Inl e)
      | Inr r \<Rightarrow>
          (case chainingLoop K H (uiComponentsMap r) (uiComponentsList r) (objects r) of
             None \<Rightarrow> None
           | Some (Inl e) \<Rightarrow> Some (Inl e)
           | Some (Inr h) \<Rightarrow>
               Some (Inr \<lparr>cmap = uiComponentsMap r,
                          array = sortArray (\<lambda>a b. compareRawUiComponents K H (h a) (h b))
                                    (uiComponentsList r),
                          cobjects = h\<rparr>)))"

section \<open>Layouts and validation\<close>

text \<open>
  \<^verbatim>\<open>
  for (var i = 0; i < layoutsFiles.length; i++) {
      var layoutFile = layoutsFiles[i];
      if (layoutFile.isDirectory()) { continue; }
      var layoutFileName = layoutFile.getName();
      var index = layoutFileName.lastIndexOf(".");
      if (layoutFileName.substr(index + 1) != "hbs") { continue; }
      var layoutFullName = layoutFileName.substr(0, index);
      layoutsData[layoutFullName] = new models.Layout(layoutFullName, layoutsDir + "/" + layoutFileName);
  }
  \<close>
\<close>

fun layoutsLoop :: "string \<Rightarrow> fileEntry list \<Rightarrow> (string \<rightharpoonup> layout) \<Rightarrow> (string \<rightharpoonup> layout)" where
  "layoutsLoop layoutsDir [] layoutsData = layoutsData"
| "layoutsLoop layoutsDir (layoutFile # rest) layoutsData =
     (if isDirectory layoutFile then layoutsLoop layoutsDir rest layoutsData
      else
        let layoutFileName = getName layoutFile;
            i = lastIndexOf layoutFileName (CHR ''.'')
        in if substr layoutFileName (i + 1) \<noteq> ''hbs''
           then layoutsLoop layoutsDir rest layoutsData
           else
             let name = substr2 layoutFileName 0 i
             in layoutsLoop layoutsDir rest
                  (layoutsData(name \<mapsto>
                     \<lparr>layoutFullName = name, layoutPath = layoutsDir @ ''/'' @ layoutFileName\<rparr>)))"

definition getLayoutsData :: "fileSystem \<Rightarrow> string \<Rightarrow> (string \<rightharpoonup> layout)" where
  "getLayoutsData fs layoutsDir = layoutsLoop layoutsDir (listFiles fs layoutsDir) Map.empty"

text \<open>
  The result \<^verbatim>\<open>{success: ..., message: ...}\<close> of a validation: valid, or the reason the
  message gives.
\<close>

datatype validationData = Valid | Invalid reason

fun isArray :: "jsval \<Rightarrow> bool" where
  "isArray (JArr xs) = True"
| "isArray _ = False"

text \<open>
  \<^verbatim>\<open>
  function validatePageDefinition(page, layoutsData) {
      var pageDefinition = page.definition;
      if (!pageDefinition[constants.UI_COMPONENT_DEFINITION_VERSION]) { return {success: false, ...}; }
      if (!pageDefinition[constants.PAGE_DEFINITION_URI]) { return {success: false, ...}; }
      var layoutFullName = pageDefinition[constants.PAGE_DEFINITION_LAYOUT];
      if (!layoutFullName) { return {success: false, ...}; }
      else if (!layoutsData[layoutFullName]) { return {success: false, ...}; }
      return {success: true, message: "Valid page definition."};
  }
  \<close>
\<close>

definition validatePageDefinition ::
  "constants \<Rightarrow> host \<Rightarrow> uiComponent \<Rightarrow> (string \<rightharpoonup> layout) \<Rightarrow> validationData" where
  "validatePageDefinition K H page layoutsData =
     (let pageDefinition = definitionDoc page
      in if \<not> truthy (getProp pageDefinition (UI_COMPONENT_DEFINITION_VERSION K))
         then Invalid NoVersion
         else if \<not> truthy (getProp pageDefinition (PAGE_DEFINITION_URI K))
         then Invalid NoUri
         else
           let layoutName = getProp pageDefinition (PAGE_DEFINITION_LAYOUT K)
           in if \<not> truthy layoutName then Invalid NoLayout
              else if layoutsData (propertyKey H layoutName) = None then Invalid LayoutDoesNotExist
              else Valid)"

text \<open>
  \<^verbatim>\<open>
  function validateDivDefinition(div) {
      var divDefinition = div.definition;
      if (!divDefinition[constants.UI_COMPONENT_DEFINITION_VERSION]) { return {success: false, ...}; }
      var pushedUris = divDefinition[constants.DIV_DEFINITION_PUSHED_URIS];
      if (pushedUris && !Array.isArray(pushedUris)) { return {success: false, ...}; }
      return {success: true, message: "Valid div definition."};
  }
  \<close>
\<close>

definition validateDivDefinition :: "constants \<Rightarrow> uiComponent \<Rightarrow> validationData" where
  "validateDivDefinition K d =
     (let divDefinition = definitionDoc d
      in if \<not> truthy (getProp divDefinition (UI_COMPONENT_DEFINITION_VERSION K))
         then Invalid NoVersion
         else
           let pushedUris = getProp divDefinition (DIV_DEFINITION_PUSHED_URIS K)
           in if truthy pushedUris \<and> \<not> isArray pushedUris then Invalid PushedUrisNotAnArray
              else Valid)"


section \<open>\<open>utils.getLookupTable\<close>\<close>

text \<open>
  \<^verbatim>\<open>
  for (var n = 0; n < numberOfUriPatterns; n++) {
      var uriPattern = uriPatterns[n];
      if (!pushedDivs[uriPattern]) { pushedDivs[uriPattern] = []; }
      pushedDivs[uriPattern].push(divFullName);
  }
  \<close>
\<close>

fun pushLoop ::
  "host \<Rightarrow> string \<Rightarrow> jsval list \<Rightarrow> (string \<rightharpoonup> string list) \<Rightarrow> (string \<rightharpoonup> string list)" where
  "pushLoop H divFullName [] pushed = pushed"
| "pushLoop H divFullName (uriPattern # rest) pushed =
     pushLoop H divFullName rest
       (pushed(propertyKey H uriPattern \<mapsto>
          (case pushed (propertyKey H uriPattern) of None \<Rightarrow> [] | Some l \<Rightarrow> l) @ [divFullName]))"

text \<open>
  \<^verbatim>\<open>
  for (var i = 0; i < numberOfDivs; i++) {
      var div = divsArray[i];
      div.index = i;
      var divDefinition = div.definition;
      div.disabled = utils.parseBoolean(divDefinition[constants.UI_COMPONENT_DEFINITION_DISABLED]);
      if (div.disabled) { continue; }
      allUiComponents[div.fullName] = div;
      if (div.children.length != 0) { continue; }
      var validationData = validateDivDefinition(div);
      if (!validationData.success) { throw new Error(validationData.message); }
      var uriPatterns = divDefinition[constants.DIV_DEFINITION_PUSHED_URIS];
      if (uriPatterns) { ... the loop above ... }
  }
  \<close>
  The state of the loop is the store of the divs, \<open>allUiComponents\<close> and \<open>pushedDivs\<close>.
  After the validation a truthy \<open>uriPatterns\<close> is an array.
\<close>

fun divsLoop ::
  "constants \<Rightarrow> host \<Rightarrow> addr list \<Rightarrow> nat \<Rightarrow> store \<Rightarrow> (string \<rightharpoonup> componentRef) \<Rightarrow>
   (string \<rightharpoonup> string list) \<Rightarrow>
   error + (store \<times> (string \<rightharpoonup> componentRef) \<times> (string \<rightharpoonup> string list))" where
  "divsLoop K H [] i h allUiComponents pushed = Inr (h, allUiComponents, pushed)"
| "divsLoop K H (d # rest) i h allUiComponents pushed =
     (let h1 = h(d := (h d)\<lparr>index := Some i\<rparr>);
          divDefinition = definitionDoc (h1 d);
          isDisabled = parseBoolean (getProp divDefinition (UI_COMPONENT_DEFINITION_DISABLED K)) None;
          h2 = h1(d := (h1 d)\<lparr>disabled := Some isDisabled\<rparr>)
      in if isDisabled then divsLoop K H rest (i + 1) h2 allUiComponents pushed
         else
           let allUiComponents' = allUiComponents(fullName (h2 d) \<mapsto> DivRef d)
           in if children (h2 d) \<noteq> [] then divsLoop K H rest (i + 1) h2 allUiComponents' pushed
              else
                (case validateDivDefinition K (h2 d) of
                   Invalid r \<Rightarrow> Inl (InvalidDefinition (fullName (h2 d)) r)
                 | Valid \<Rightarrow>
                     let uriPatterns = getProp divDefinition (DIV_DEFINITION_PUSHED_URIS K)
                     in divsLoop K H rest (i + 1) h2 allUiComponents'
                          (case uriPatterns of
                             JArr xs \<Rightarrow> pushLoop H (fullName (h2 d)) xs pushed
                           | _ \<Rightarrow> pushed)))"

text \<open>
  \<^verbatim>\<open>
  for (var j = 0; j < numberOfPages; j++) {
      var page = pagesArray[j];
      page.index = i + j;
      var pageDefinition = page.definition;
      page.disabled = utils.parseBoolean(pageDefinition[constants.UI_COMPONENT_DEFINITION_DISABLED]);
      if (page.disabled) { continue; }
      allUiComponents[page.fullName] = page;
      if (page.children.length != 0) { continue; }
      var validationData = validatePageDefinition(page, layoutsData);
      if (!validationData.success) { throw new Error(validationData.message); }
      var pageUri = pageDefinition[constants.PAGE_DEFINITION_URI];
      if (uriPagesMap[pageUri]) {
          throw new Error("Cannot register page '" + page.fullName + "' for URI '" + pageUri
                          + "' since page '" + uriPagesMap[pageUri] + "' already registered.");
      }
      uriPagesMap[pageUri] = page.fullName;
  }
  \<close>
  Here \<open>i\<close> is the value the loop over the divs has left in it, the number of divs. An
  entry of \<open>uriPagesMap\<close> is a full name, truthy when it is not the empty string.
\<close>

fun pagesLoop ::
  "constants \<Rightarrow> host \<Rightarrow> (string \<rightharpoonup> layout) \<Rightarrow> nat \<Rightarrow> addr list \<Rightarrow> nat \<Rightarrow> store \<Rightarrow>
   (string \<rightharpoonup> componentRef) \<Rightarrow> (string \<rightharpoonup> string) \<Rightarrow>
   error + (store \<times> (string \<rightharpoonup> componentRef) \<times> (string \<rightharpoonup> string))" where
  "pagesLoop K H layoutsData i [] j h allUiComponents uriMap = Inr (h, allUiComponents, uriMap)"
| "pagesLoop K H layoutsData i (p # rest) j h allUiComponents uriMap =
     (let h1 = h(p := (h p)\<lparr>index := Some (i + j)\<rparr>);
          pageDefinition = definitionDoc (h1 p);
          isDisabled = parseBoolean (getProp pageDefinition (UI_COMPONENT_DEFINITION_DISABLED K)) None;
          h2 = h1(p := (h1 p)\<lparr>disabled := Some isDisabled\<rparr>)
      in if isDisabled then pagesLoop K H layoutsData i rest (j + 1) h2 allUiComponents uriMap
         else
           let allUiComponents' = allUiComponents(fullName (h2 p) \<mapsto> PageRef p)
           in if children (h2 p) \<noteq> []
              then pagesLoop K H layoutsData i rest (j + 1) h2 allUiComponents' uriMap
              else
                (case validatePageDefinition K H (h2 p) layoutsData of
                   Invalid r \<Rightarrow> Inl (InvalidDefinition (fullName (h2 p)) r)
                 | Valid \<Rightarrow>
                     let pageUri = propertyKey H (getProp pageDefinition (PAGE_DEFINITION_URI K))
                     in (case uriMap pageUri of
                           Some registered \<Rightarrow>
                             if registered \<noteq> []
                             then Inl (PageUriCollision (fullName (h2 p)) pageUri registered)
                             else pagesLoop K H layoutsData i rest (j + 1) h2 allUiComponents'
                                    (uriMap(pageUri \<mapsto> fullName (h2 p)))
                         | None \<Rightarrow>
                             pagesLoop K H layoutsData i rest (j + 1) h2 allUiComponents'
                               (uriMap(pageUri \<mapsto> fullName (h2 p))))))"

text \<open>
  The build of the table, from \<^verbatim>\<open>var layoutsData = getLayoutsData(...)\<close> to the object
  literal \<^verbatim>\<open>lookupTable\<close>: the part of \<open>utils.getLookupTable\<close> that runs when the cache
  does not answer. It returns the table, or the error thrown; \<open>None\<close> when the
  inheritance loop does not end.
\<close>

definition buildLookupTable :: "constants \<Rightarrow> host \<Rightarrow> fileSystem \<Rightarrow> (error + lookupTable) option" where
  "buildLookupTable K H fs =
     (let layoutsData = getLayoutsData fs (DIRECTORY_APP_LAYOUTS K)
      in case getUiComponentsData K H fs ''div'' (DIRECTORY_APP_DIVS K) of
           None \<Rightarrow> None
         | Some (Inl e) \<Rightarrow> Some (Inl e)
         | Some (Inr divsData) \<Rightarrow>
             (case divsLoop K H (array divsData) 0 (cobjects divsData) Map.empty Map.empty of
                Inl e \<Rightarrow> Some (Inl e)
              | Inr (dh, allDivs, pushed) \<Rightarrow>
                  (case getUiComponentsData K H fs ''page'' (DIRECTORY_APP_PAGES K) of
                     None \<Rightarrow> None
                   | Some (Inl e) \<Rightarrow> Some (Inl e)
                   | Some (Inr pagesData) \<Rightarrow>
                       (case pagesLoop K H layoutsData (length (array divsData)) (array pagesData) 0
                               (cobjects pagesData) allDivs Map.empty of
                          Inl e \<Rightarrow> Some (Inl e)
                        | Inr (ph, allUiComponents, uriMap) \<Rightarrow>
                            Some (Inr \<lparr>layouts = layoutsData,
                                       pages = cmap pagesData,
                                       uriPagesMap = uriMap,
                                       divs = cmap divsData,
                                       pushedDivs = pushed,
                                       uiComponents = allUiComponents,
                                       divObjects = dh,
                                       pageObjects = ph\<rparr>)))))"

text \<open>
  \<^verbatim>\<open>
  utils.getLookupTable = function (configs) {
      var isCachingEnabled = utils.parseBoolean(configs[constants.APP_CONF_CACHE_ENABLED]);
      if (isCachingEnabled) {
          var cachedLookupTable = application.get(constants.CACHE_KEY_LOOKUP_TABLE);
          if (cachedLookupTable) { return cachedLookupTable; }
      }
      ... the build ...
      application.put(constants.CACHE_KEY_LOOKUP_TABLE, lookupTable);
      return lookupTable;
  };
  \<close>
  The state is the entry of the application cache under \<open>CACHE_KEY_LOOKUP_TABLE\<close>:
  \<open>None\<close> when nothing is stored, or the table stored. The function returns what the
  call returns or throws, with the entry as the call leaves it. An error thrown by the
  build leaves the function before \<open>application.put\<close>.
\<close>

definition getLookupTable ::
  "constants \<Rightarrow> host \<Rightarrow> fileSystem \<Rightarrow> jsval \<Rightarrow> lookupTable option \<Rightarrow>
   ((error + lookupTable) \<times> lookupTable option) option" where
  "getLookupTable K H fs configs cache =
     (let isCachingEnabled = parseBoolean (getProp configs (APP_CONF_CACHE_ENABLED K)) None
      in case (if isCachingEnabled then cache else None) of
           Some cachedLookupTable \<Rightarrow> Some (Inr cachedLookupTable, cache)
         | None \<Rightarrow>
             (case buildLookupTable K H fs of
                None \<Rightarrow> None
              | Some (Inl e) \<Rightarrow> Some (Inl e, cache)
              | Some (Inr t) \<Rightarrow> Some (Inr t, Some t)))"

section \<open>\<open>utils.getFurthestChild\<close> and \<open>utils.getFileInUiComponent\<close>\<close>

text \<open>
  \<^verbatim>\<open>
  var currentChildDistance = -1;
  for (var j = 0; j < numberOfCurrentChildParents; j++) {
      if (parentUiComponent.equals(currentChildParents[j])) {
          currentChildDistance = j;
          break;
      }
  }
  \<close>
\<close>

fun distanceLoop :: "models \<Rightarrow> store \<Rightarrow> addr \<Rightarrow> addr list \<Rightarrow> int \<Rightarrow> int" where
  "distanceLoop M h parentUiComponent [] j = - 1"
| "distanceLoop M h parentUiComponent (q # qs) j =
     (if equals M h parentUiComponent q then j
      else distanceLoop M h parentUiComponent qs (j + 1))"

text \<open>
  \<^verbatim>\<open>
  for (var i = 0; i < numberOfChildrenUiComponents; i++) {
      var currentChild = childrenUiComponents[i];
      ... currentChildDistance ...
      if (furthestChildDistance < currentChildDistance) {
          furthestChildDistance = currentChildDistance;
          furthestChild = currentChild;
      } else if (furthestChildDistance == currentChildDistance) {
          switch (currentChild.compareTo(furthestChild)) {
              case 1:
                  furthestChildDistance = currentChildDistance;
                  furthestChild = currentChild;
                  break;
              case 0:
                  log.warn(...);
                  break;
              case -1:
          }
      } else { }
  }
  return furthestChild;
  \<close>
\<close>

text \<open>
  The message of \<open>log.warn\<close> reads \<open>furthestChild.fullName\<close>: when the tie is with the
  initial distance \<open>-1\<close> and no child has been chosen yet, \<open>furthestChild\<close> is \<open>null\<close>
  and the read throws a \<open>TypeError\<close>. A result of \<open>compareTo\<close> other than \<open>1\<close> and
  \<open>0\<close> matches no case that does anything.
\<close>

fun furthestLoop ::
  "models \<Rightarrow> store \<Rightarrow> addr \<Rightarrow> addr list \<Rightarrow> addr option \<Rightarrow> int \<Rightarrow> error + addr option" where
  "furthestLoop M h parentUiComponent [] furthestChild furthestChildDistance = Inr furthestChild"
| "furthestLoop M h parentUiComponent (currentChild # rest) furthestChild furthestChildDistance =
     (let currentChildDistance = distanceLoop M h parentUiComponent (parents (h currentChild)) 0
      in if furthestChildDistance < currentChildDistance
         then furthestLoop M h parentUiComponent rest (Some currentChild) currentChildDistance
         else if furthestChildDistance = currentChildDistance
         then (if compareTo M h currentChild furthestChild = 1
               then furthestLoop M h parentUiComponent rest (Some currentChild) currentChildDistance
               else if compareTo M h currentChild furthestChild = 0
               then (case furthestChild of
                       None \<Rightarrow> Inl TypeError
                     | Some f \<Rightarrow>
                         furthestLoop M h parentUiComponent rest furthestChild furthestChildDistance)
               else furthestLoop M h parentUiComponent rest furthestChild furthestChildDistance)
         else furthestLoop M h parentUiComponent rest furthestChild furthestChildDistance)"

text \<open>The result is a reference to a component or \<open>null\<close> (\<open>None\<close>), or the error thrown.\<close>

definition getFurthestChild :: "models \<Rightarrow> store \<Rightarrow> addr \<Rightarrow> error + addr option" where
  "getFurthestChild M h parentUiComponent =
     (if children (h parentUiComponent) = [] then Inr (Some parentUiComponent)
      else furthestLoop M h parentUiComponent (children (h parentUiComponent)) None (- 1))"

text \<open>
  \<^verbatim>\<open>
  for (var i = 0; i < numberOfParentUiComponents; i++) {
      var parentUiComponent = parentUiComponents[i];
      var parentFile = new File(parentUiComponent.path + relativeFilePath);
      if (parentFile.isExists() && !parentFile.isDirectory()) { return parentFile; }
  }
  return null;
  \<close>
  A \<open>File\<close> returned is given by its path.
\<close>

fun parentsLoop :: "fileSystem \<Rightarrow> store \<Rightarrow> string \<Rightarrow> addr list \<Rightarrow> string option" where
  "parentsLoop fs h relativeFilePath [] = None"
| "parentsLoop fs h relativeFilePath (parentUiComponent # rest) =
     (let parentFile = path (h parentUiComponent) @ relativeFilePath
      in if isExists fs parentFile \<and> \<not> pathIsDirectory fs parentFile then Some parentFile
         else parentsLoop fs h relativeFilePath rest)"

text \<open>
  \<^verbatim>\<open>
  utils.getFileInUiComponent = function (uiComponent, relativeFilePath) {
      if (relativeFilePath.charAt(0) != "/") { relativeFilePath = "/" + relativeFilePath; }
      var childUiComponent = utils.getFurthestChild(uiComponent);
      var file = new File(childUiComponent.path + relativeFilePath);
      if (file.isExists() && !file.isDirectory()) { return file; }
      var parentUiComponents = childUiComponent.parents;
      ... the loop above ...
  };
  \<close>
  Reading \<open>path\<close> of \<open>null\<close> throws a \<open>TypeError\<close>.
\<close>

definition normalise :: "string \<Rightarrow> string" where
  "normalise relativeFilePath =
     (if take 1 relativeFilePath \<noteq> ''/'' then ''/'' @ relativeFilePath else relativeFilePath)"

definition getFileInUiComponent ::
  "models \<Rightarrow> fileSystem \<Rightarrow> store \<Rightarrow> addr \<Rightarrow> string \<Rightarrow> error + string option" where
  "getFileInUiComponent M fs h uiComponent relativeFilePath =
     (let relativeFilePath' = normalise relativeFilePath
      in case getFurthestChild M h uiComponent of
           Inl e \<Rightarrow> Inl e
         | Inr None \<Rightarrow> Inl TypeError
         | Inr (Some childUiComponent) \<Rightarrow>
             let f = path (h childUiComponent) @ relativeFilePath'
             in if isExists fs f \<and> \<not> pathIsDirectory fs f then Inr (Some f)
                else Inr (parentsLoop fs h relativeFilePath' (parents (h childUiComponent))))"


section \<open>Notions the statements use\<close>

text \<open>
  The priority the comparison gives a component: the number \<open>parseInt\<close> reads from the
  index field of its definition, or the sentinel 1000000.
\<close>

definition priority :: "constants \<Rightarrow> host \<Rightarrow> uiComponent \<Rightarrow> jsnum" where
  "priority K H a =
     (let tmpIndex = parseInt H (getProp (definitionDoc a) (UI_COMPONENT_DEFINITION_INDEX K))
      in if isNaN tmpIndex then Fin 1000000 else tmpIndex)"

text \<open>
  The names of the component directories that discovery visits for the components path
  \<open>componentsPath\<close> (\<open>/divs\<close> or \<open>/pages\<close>), collection by collection, in the order of
  the listings.
\<close>

definition discoveredNames :: "constants \<Rightarrow> fileSystem \<Rightarrow> string \<Rightarrow> string list" where
  "discoveredNames K fs componentsPath =
     concat (map (\<lambda>c. map getName (filter isDirectory
                    (listFiles fs (DIRECTORY_APP_COMPONENTS K @ ''/'' @ getName c @ componentsPath))))
               (filter isDirectory (listFiles fs (DIRECTORY_APP_COMPONENTS K))))"

text \<open>
  The paths of these directories, in the same order: the path that discovery gives to
  the component of the directory.
\<close>

definition discoveredPaths :: "constants \<Rightarrow> fileSystem \<Rightarrow> string \<Rightarrow> string list" where
  "discoveredPaths K fs componentsPath =
     concat (map (\<lambda>c. map (\<lambda>e. DIRECTORY_APP_COMPONENTS K @ ''/'' @ getName c @ componentsPath
                                   @ ''/'' @ getName e)
                    (filter isDirectory
                       (listFiles fs (DIRECTORY_APP_COMPONENTS K @ ''/'' @ getName c @ componentsPath))))
               (filter isDirectory (listFiles fs (DIRECTORY_APP_COMPONENTS K))))"

text \<open>
  A component is enabled when \<open>parseBoolean\<close> of the disabled field of its definition is
  false; it is final when nothing extends it.
\<close>

definition isEnabled :: "constants \<Rightarrow> uiComponent \<Rightarrow> bool" where
  "isEnabled K c = (\<not> parseBoolean (getProp (definitionDoc c) (UI_COMPONENT_DEFINITION_DISABLED K)) None)"

definition isFinal :: "uiComponent \<Rightarrow> bool" where
  "isFinal c = (children c = [])"

text \<open>
  What each loop of \<open>utils.getLookupTable\<close> writes into a component: its index and
  its disabled flag.
\<close>

definition flagged :: "uiComponent \<Rightarrow> nat \<Rightarrow> bool \<Rightarrow> uiComponent" where
  "flagged c i dis = c\<lparr>index := Some i, disabled := Some dis\<rparr>"

text \<open>The pushed URIs a valid div adds to \<open>pushedDivs\<close>.\<close>

definition divPushes ::
  "constants \<Rightarrow> host \<Rightarrow> uiComponent \<Rightarrow> (string \<rightharpoonup> string list) \<Rightarrow> (string \<rightharpoonup> string list)" where
  "divPushes K H c pushed =
     (case getProp (definitionDoc c) (DIV_DEFINITION_PUSHED_URIS K) of
        JArr xs \<Rightarrow> pushLoop H (fullName c) xs pushed
      | _ \<Rightarrow> pushed)"

text \<open>
  The address \<open>a\<close> is the position of the last \<open>n\<close> in the list \<open>names\<close>.
\<close>

definition isLastOfName :: "string list \<Rightarrow> string \<Rightarrow> nat \<Rightarrow> bool" where
  "isLastOfName names n a =
     (a < length names \<and> names ! a = n \<and> (\<forall>b. a < b \<and> b < length names \<longrightarrow> names ! b \<noteq> n))"

text \<open>
  The invariant of discovery: the list holds the addresses in the order of allocation,
  the component at the address \<open>a\<close> has the \<open>a\<close>-th name, and the map sends a name to
  the address of the component discovered last under that name.
\<close>

definition discovered :: "registry \<Rightarrow> string list \<Rightarrow> bool" where
  "discovered r names =
     (uiComponentsList r = [0..<length names]
      \<and> map (\<lambda>a. fullName (objects r a)) [0..<length names] = names
      \<and> (\<forall>n a. uiComponentsMap r n = Some a \<longrightarrow> a < length names \<and> names ! a = n)
      \<and> dom (uiComponentsMap r) = set names
      \<and> (\<forall>n a. uiComponentsMap r n = Some a \<longleftrightarrow> isLastOfName names n a)
      \<and> (\<forall>a. children (objects r a) = []))"

text \<open>
  What the ECMAScript standard asks of \<open>localeCompare\<close>: it is a consistent comparison
  function on all strings. A string compares equal to itself, swapping the arguments
  swaps the sign, and the order is transitive.
\<close>

definition consistentComparison :: "(string \<Rightarrow> string \<Rightarrow> int) \<Rightarrow> bool" where
  "consistentComparison f =
     ((\<forall>s. f s s = 0)
      \<and> (\<forall>s t. sgn (f t s) = - sgn (f s t))
      \<and> (\<forall>s t u. f s t \<le> 0 \<and> f t u \<le> 0 \<longrightarrow> f s u \<le> 0))"

text \<open>
  The components of a pass that are validated and registered: the enabled ones that
  nothing extends, in the order of the pass.
\<close>

definition candidates :: "constants \<Rightarrow> store \<Rightarrow> addr list \<Rightarrow> addr list" where
  "candidates K h ds = filter (\<lambda>a. isEnabled K (h a) \<and> isFinal (h a)) ds"

text \<open>The key under which a page is registered in \<open>uriPagesMap\<close>.\<close>

definition pageUriOf :: "constants \<Rightarrow> host \<Rightarrow> uiComponent \<Rightarrow> string" where
  "pageUriOf K H c = propertyKey H (getProp (definitionDoc c) (PAGE_DEFINITION_URI K))"

text \<open>
  The distance of a child from a component: the position, in the parents of the child,
  of the first parent that \<open>equals\<close> the component, or \<open>-1\<close> when there is none. A
  furthest child of a component is the component itself when it has no children, and
  else a child whose distance no other child exceeds.
\<close>

definition distanceFrom :: "models \<Rightarrow> store \<Rightarrow> addr \<Rightarrow> addr \<Rightarrow> int" where
  "distanceFrom M h u c = distanceLoop M h u (parents (h c)) 0"

definition isFurthestChild :: "models \<Rightarrow> store \<Rightarrow> addr \<Rightarrow> addr \<Rightarrow> bool" where
  "isFurthestChild M h u c =
     (if children (h u) = [] then c = u
      else c \<in> set (children (h u))
           \<and> (\<forall>c'\<in>set (children (h u)). distanceFrom M h u c' \<le> distanceFrom M h u c))"

text \<open>
  Every component that a store records as a child of another has that other among its
  parents.
\<close>

definition linked :: "store \<Rightarrow> bool" where
  "linked h = (\<forall>p c. c \<in> set (children (h p)) \<longrightarrow> p \<in> set (parents (h c)))"

section \<open>Example inputs\<close>

text \<open>
  A collation in the manner of the host's. It ignores the control character U+0001,
  compares without regard to the case of the letters first, and among strings that are
  equal so far puts a lower-case letter before its upper-case letter: \<open>a.x\<close> is before
  \<open>B.x\<close>, and \<open>a.x\<close> and \<open>a.x\<close> followed by U+0001 compare equal.
\<close>

definition swapCaseChar :: "char \<Rightarrow> char" where
  "swapCaseChar c =
     (case map_of (zip (''ABCDEFGHIJKLMNOPQRSTUVWXYZ'' @ ''abcdefghijklmnopqrstuvwxyz'')
                       (''abcdefghijklmnopqrstuvwxyz'' @ ''ABCDEFGHIJKLMNOPQRSTUVWXYZ'')) c of
        Some d \<Rightarrow> d
      | None \<Rightarrow> c)"

definition collated :: "string \<Rightarrow> string" where
  "collated s = filter (\<lambda>c. c \<noteq> CHR 0x01) s"

definition exampleCollation :: "string \<Rightarrow> string \<Rightarrow> int" where
  "exampleCollation s t =
     (let ps = map toLowerChar (collated s); pt = map toLowerChar (collated t);
          cs = map swapCaseChar (collated s); ct = map swapCaseChar (collated t)
      in if ps < pt then - 1 else if pt < ps then 1
         else if cs < ct then - 1 else if ct < cs then 1 else 0)"

text \<open>
  The constants of an application, and a host that is the one of JavaScript on the
  values the examples give it: \<open>parseInt\<close> of a number that is an integer below
  \<open>10^21\<close> in absolute value is the number and \<open>parseInt\<close> of \<open>undefined\<close> is
  \<open>NaN\<close>; the names of the examples are lower-case letters and dots (one ends with
  U+0001), which the collation above orders as the host does. The examples convert no
  value that is not a string to a property key.
\<close>

definition K0 :: constants where
  "K0 = \<lparr>DIRECTORY_APP_COMPONENTS = ''/app/components'',
          DIRECTORY_APP_LAYOUTS = ''/app/layouts'',
          DIRECTORY_APP_DIVS = ''/divs'',
          DIRECTORY_APP_PAGES = ''/pages'',
          UI_COMPONENT_DEFINITION_VERSION = ''version'',
          UI_COMPONENT_DEFINITION_INDEX = ''index'',
          UI_COMPONENT_DEFINITION_EXTENDS = ''extends'',
          UI_COMPONENT_DEFINITION_DISABLED = ''disabled'',
          PAGE_DEFINITION_URI = ''uri'',
          PAGE_DEFINITION_LAYOUT = ''layout'',
          DIV_DEFINITION_PUSHED_URIS = ''pushedUris'',
          APP_CONF_CACHE_ENABLED = ''cachingEnabled''\<rparr>"

definition H0 :: host where
  "H0 = \<lparr>parseInt = (\<lambda>v. case v of JNum n \<Rightarrow> n | _ \<Rightarrow> NaN),
          toString = (\<lambda>v. ''undefined''),
          localeCompare = exampleCollation\<rparr>"

text \<open>
  A file system with one collection \<open>c1\<close> that holds the given divs and pages, each a
  directory (its name, the name of its definition file, the definition), and the given
  layout files; there is no template and no script.
\<close>

definition exampleFs ::
  "(string \<times> string \<times> (string \<times> jsval) list) list \<Rightarrow> (string \<times> string \<times> (string \<times> jsval) list) list
   \<Rightarrow> string list \<Rightarrow> fileSystem" where
  "exampleFs ds ps ls =
     \<lparr>listFiles = (\<lambda>p.
        if p = ''/app/components'' then [\<lparr>getName = ''c1'', isDirectory = True\<rparr>]
        else if p = ''/app/components/c1/divs''
        then map (\<lambda>(n, f, d). \<lparr>getName = n, isDirectory = True\<rparr>) ds
        else if p = ''/app/components/c1/pages''
        then map (\<lambda>(n, f, d). \<lparr>getName = n, isDirectory = True\<rparr>) ps
        else if p = ''/app/layouts''
        then map (\<lambda>n. \<lparr>getName = n, isDirectory = False\<rparr>) ls
        else []),
      isExists = (\<lambda>p. p \<in> set (map (\<lambda>(n, f, d). ''/app/components/c1/divs/'' @ n @ ''/'' @ f) ds
                                @ map (\<lambda>(n, f, d). ''/app/components/c1/pages/'' @ n @ ''/'' @ f) ps)),
      pathIsDirectory = (\<lambda>p. False),
      require = (\<lambda>p. case map_of (map (\<lambda>(n, f, d). (''/app/components/c1/divs/'' @ n @ ''/'' @ f, d)) ds
                                   @ map (\<lambda>(n, f, d). (''/app/components/c1/pages/'' @ n @ ''/'' @ f, d)) ps) p of
                        Some d \<Rightarrow> d | None \<Rightarrow> [])\<rparr>"

text \<open>Two divs without inheritance: the second to be discovered declares the index 5.\<close>

definition fsOrder :: fileSystem where
  "fsOrder = exampleFs
     [(''a.first'', ''first.json'', [(''version'', JStr ''1.0'')]),
      (''b.second'', ''second.json'', [(''version'', JStr ''1.0''), (''index'', JNum (Fin 5))])]
     [] []"

text \<open>
  A div \<open>a.parent\<close> with the index 5 and a pushed URI, and a div \<open>b.child\<close> that extends
  it and declares neither.
\<close>

definition fsInherit :: fileSystem where
  "fsInherit = exampleFs
     [(''a.parent'', ''parent.json'',
         [(''version'', JStr ''1.0''), (''index'', JNum (Fin 5)),
          (''pushedUris'', JArr [JStr ''/app/*''])]),
      (''b.child'', ''child.json'', [(''extends'', JStr ''a.parent'')])]
     [] []"

text \<open>A div that its definition disables.\<close>

definition fsDisabled :: fileSystem where
  "fsDisabled = exampleFs
     [(''a.off'', ''off.json'', [(''version'', JStr ''1.0''), (''disabled'', JBool True)])]
     [] []"

text \<open>A div without a version, which the validation rejects.\<close>

definition fsInvalid :: fileSystem where
  "fsInvalid = exampleFs [(''a.bad'', ''bad.json'', [])] [] []"

text \<open>A page \<open>p.base\<close> and a page \<open>p.derived\<close> that extends it, with their layout.\<close>

definition fsPages :: fileSystem where
  "fsPages = exampleFs []
     [(''p.base'', ''base.json'',
         [(''version'', JStr ''1.0''), (''uri'', JStr ''/home''), (''layout'', JStr ''main'')]),
      (''p.derived'', ''derived.json'', [(''extends'', JStr ''p.base'')])]
     [''main.hbs'']"

text \<open>Two pages that declare the same URI.\<close>

definition fsCollision :: fileSystem where
  "fsCollision = exampleFs []
     [(''p.one'', ''one.json'',
         [(''version'', JStr ''1.0''), (''uri'', JStr ''/home''), (''layout'', JStr ''main'')]),
      (''p.two'', ''two.json'',
         [(''version'', JStr ''1.0''), (''uri'', JStr ''/home''), (''layout'', JStr ''main'')])]
     [''main.hbs'']"

text \<open>The two divs of \<open>fsOrder\<close> and the two pages of \<open>fsPages\<close> in one application.\<close>

definition fsSite :: fileSystem where
  "fsSite = exampleFs
     [(''a.first'', ''first.json'', [(''version'', JStr ''1.0'')]),
      (''b.second'', ''second.json'', [(''version'', JStr ''1.0''), (''index'', JNum (Fin 5))])]
     [(''p.base'', ''base.json'',
         [(''version'', JStr ''1.0''), (''uri'', JStr ''/home''), (''layout'', JStr ''main'')]),
      (''p.derived'', ''derived.json'', [(''extends'', JStr ''p.base'')])]
     [''main.hbs'']"

text \<open>Two collections, \<open>c1\<close> and \<open>c2\<close>, that each hold a div directory \<open>a.same\<close>.\<close>

definition fsTwoCollections :: fileSystem where
  "fsTwoCollections =
     \<lparr>listFiles = (\<lambda>p.
        if p = ''/app/components''
        then [\<lparr>getName = ''c1'', isDirectory = True\<rparr>, \<lparr>getName = ''c2'', isDirectory = True\<rparr>]
        else if p = ''/app/components/c1/divs'' \<or> p = ''/app/components/c2/divs''
        then [\<lparr>getName = ''a.same'', isDirectory = True\<rparr>]
        else []),
      isExists = (\<lambda>p. p = ''/app/components/c1/divs/a.same/same.json''
                     \<or> p = ''/app/components/c2/divs/a.same/same.json''),
      pathIsDirectory = (\<lambda>p. False),
      require = (\<lambda>p. [(''version'', JStr ''1.0'')])\<rparr>"


text \<open>
  Two collections with a div directory \<open>a.same\<close> each: the one of \<open>c1\<close> declares a
  pushed URI and nothing extends it; the one of \<open>c2\<close>, discovered after it, declares
  no version (its definition is not valid) and is extended by the div \<open>b.child\<close> of
  \<open>c2\<close>.
\<close>

definition fsShadow :: fileSystem where
  "fsShadow =
     \<lparr>listFiles = (\<lambda>p.
        if p = ''/app/components''
        then [\<lparr>getName = ''c1'', isDirectory = True\<rparr>, \<lparr>getName = ''c2'', isDirectory = True\<rparr>]
        else if p = ''/app/components/c1/divs''
        then [\<lparr>getName = ''a.same'', isDirectory = True\<rparr>]
        else if p = ''/app/components/c2/divs''
        then [\<lparr>getName = ''a.same'', isDirectory = True\<rparr>, \<lparr>getName = ''b.child'', isDirectory = True\<rparr>]
        else []),
      isExists = (\<lambda>p. p = ''/app/components/c1/divs/a.same/same.json''
                     \<or> p = ''/app/components/c2/divs/a.same/same.json''
                     \<or> p = ''/app/components/c2/divs/b.child/child.json''),
      pathIsDirectory = (\<lambda>p. False),
      require = (\<lambda>p.
        if p = ''/app/components/c1/divs/a.same/same.json''
        then [(''version'', JStr ''1.0''), (''pushedUris'', JArr [JStr ''/x''])]
        else if p = ''/app/components/c2/divs/a.same/same.json''
        then []
        else [(''extends'', JStr ''a.same''), (''version'', JStr ''1.0'')])\<rparr>"

text \<open>A component that has a full name and a definition only.\<close>

definition exampleDiv :: "string \<Rightarrow> (string \<times> jsval) list \<Rightarrow> uiComponent" where
  "exampleDiv n d = new_UIComponent\<lparr>fullName := n, definitionDoc := JObj d\<rparr>"


text \<open>
  A family of six components as the inheritance loop leaves it: \<open>b.mid\<close> and
  \<open>d.side\<close> extend \<open>a.base\<close>, \<open>c.leaf\<close> and \<open>e.leaf\<close> extend \<open>b.mid\<close>, and
  \<open>a.leaf\<close> extends \<open>d.side\<close>. The methods of \<open>UIComponent\<close> for it: two components
  are equal when their full names are, and \<open>compareTo\<close> compares the full names (a
  component is after \<open>null\<close>). In the file system \<open>b.mid\<close> and \<open>a.base\<close> have the file
  \<open>x.hbs\<close>, and no other directory has.
\<close>

definition M0 :: models where
  "M0 = \<lparr>equals = (\<lambda>h a b. fullName (h a) = fullName (h b)),
          compareTo = (\<lambda>h a b. case b of
                         None \<Rightarrow> 1
                       | Some f \<Rightarrow> if fullName (h f) < fullName (h a) then 1
                                  else if fullName (h a) = fullName (h f) then 0 else - 1)\<rparr>"

definition storeFamily :: store where
  "storeFamily = (\<lambda>a. new_UIComponent)
     (0 := new_UIComponent\<lparr>fullName := ''a.base'', path := ''/d/a.base'',
                             children := [1, 2, 3, 4, 5]\<rparr>,
      1 := new_UIComponent\<lparr>fullName := ''b.mid'', path := ''/d/b.mid'', parents := [0],
                             children := [2, 4]\<rparr>,
      2 := new_UIComponent\<lparr>fullName := ''c.leaf'', path := ''/d/c.leaf'', parents := [1, 0]\<rparr>,
      3 := new_UIComponent\<lparr>fullName := ''d.side'', path := ''/d/d.side'', parents := [0],
                             children := [5]\<rparr>,
      4 := new_UIComponent\<lparr>fullName := ''e.leaf'', path := ''/d/e.leaf'', parents := [1, 0]\<rparr>,
      5 := new_UIComponent\<lparr>fullName := ''a.leaf'', path := ''/d/a.leaf'', parents := [3, 0]\<rparr>)"

definition fsParentFile :: fileSystem where
  "fsParentFile = \<lparr>listFiles = (\<lambda>p. []),
     isExists = (\<lambda>p. p = ''/d/b.mid/x.hbs'' \<or> p = ''/d/a.base/x.hbs''),
     pathIsDirectory = (\<lambda>p. False), require = (\<lambda>p. [])\<rparr>"

text \<open>
  The results of the examples. A table with nothing in it stands for a build that gives
  no table, and a registry with nothing in it for a discovery that gives none.
\<close>

definition emptyTable :: lookupTable where
  "emptyTable = \<lparr>layouts = Map.empty, pages = Map.empty, uriPagesMap = Map.empty, divs = Map.empty,
     pushedDivs = Map.empty, uiComponents = Map.empty, divObjects = (\<lambda>a. new_UIComponent),
     pageObjects = (\<lambda>a. new_UIComponent)\<rparr>"

definition theData :: "(error + componentsData) option \<Rightarrow> componentsData" where
  "theData x = (case x of Some (Inr dd) \<Rightarrow> dd
                | _ \<Rightarrow> \<lparr>cmap = Map.empty, array = [], cobjects = (\<lambda>a. new_UIComponent)\<rparr>)"

definition theTable :: "(error + lookupTable) option \<Rightarrow> lookupTable" where
  "theTable x = (case x of Some (Inr t) \<Rightarrow> t | _ \<Rightarrow> emptyTable)"

definition isData :: "(error + componentsData) option \<Rightarrow> bool" where
  "isData x = (case x of Some (Inr dd) \<Rightarrow> True | _ \<Rightarrow> False)"

definition isTable :: "(error + lookupTable) option \<Rightarrow> bool" where
  "isTable x = (case x of Some (Inr dd) \<Rightarrow> True | _ \<Rightarrow> False)"

definition divsInherit :: componentsData where
  "divsInherit = theData (getUiComponentsData K0 H0 fsInherit ''div'' (DIRECTORY_APP_DIVS K0))"

definition tableInherit :: lookupTable where
  "tableInherit = theTable (buildLookupTable K0 H0 fsInherit)"

definition divsTwoCollections :: componentsData where
  "divsTwoCollections =
     theData (getUiComponentsData K0 H0 fsTwoCollections ''div'' (DIRECTORY_APP_DIVS K0))"

definition tableOrder :: lookupTable where
  "tableOrder = theTable (buildLookupTable K0 H0 fsOrder)"

definition tableDisabled :: lookupTable where
  "tableDisabled = theTable (buildLookupTable K0 H0 fsDisabled)"

definition divsSite :: componentsData where
  "divsSite = theData (getUiComponentsData K0 H0 fsSite ''div'' (DIRECTORY_APP_DIVS K0))"

definition pagesSite :: componentsData where
  "pagesSite = theData (getUiComponentsData K0 H0 fsSite ''page'' (DIRECTORY_APP_PAGES K0))"

definition tableSite :: lookupTable where
  "tableSite = theTable (buildLookupTable K0 H0 fsSite)"

definition divsShadow :: componentsData where
  "divsShadow = theData (getUiComponentsData K0 H0 fsShadow ''div'' (DIRECTORY_APP_DIVS K0))"

definition tableShadow :: lookupTable where
  "tableShadow = theTable (buildLookupTable K0 H0 fsShadow)"

definition divsInvalid :: componentsData where
  "divsInvalid = theData (getUiComponentsData K0 H0 fsInvalid ''div'' (DIRECTORY_APP_DIVS K0))"

definition pagesFamily :: componentsData where
  "pagesFamily = theData (getUiComponentsData K0 H0 fsPages ''page'' (DIRECTORY_APP_PAGES K0))"

definition pagesCollision :: componentsData where
  "pagesCollision = theData (getUiComponentsData K0 H0 fsCollision ''page'' (DIRECTORY_APP_PAGES K0))"

section \<open>Reading the results of the examples\<close>

lemma theData_eq: "isData x \<Longrightarrow> x = Some (Inr (theData x))"
  by (auto simp: isData_def theData_def split: option.splits sum.splits)

lemma theTable_eq: "isTable x \<Longrightarrow> x = Some (Inr (theTable x))"
  by (auto simp: isTable_def theTable_def split: option.splits sum.splits)

lemma divsInherit_eq:
  "getUiComponentsData K0 H0 fsInherit ''div'' (DIRECTORY_APP_DIVS K0) = Some (Inr divsInherit)"
proof -
  have "isData (getUiComponentsData K0 H0 fsInherit ''div'' (DIRECTORY_APP_DIVS K0))" by code_simp
  from theData_eq [OF this] show ?thesis by (simp add: divsInherit_def)
qed

lemma divsTwoCollections_eq:
  "getUiComponentsData K0 H0 fsTwoCollections ''div'' (DIRECTORY_APP_DIVS K0)
     = Some (Inr divsTwoCollections)"
proof -
  have "isData (getUiComponentsData K0 H0 fsTwoCollections ''div'' (DIRECTORY_APP_DIVS K0))"
    by code_simp
  from theData_eq [OF this] show ?thesis by (simp add: divsTwoCollections_def)
qed

lemma divsSite_eq:
  "getUiComponentsData K0 H0 fsSite ''div'' (DIRECTORY_APP_DIVS K0) = Some (Inr divsSite)"
proof -
  have "isData (getUiComponentsData K0 H0 fsSite ''div'' (DIRECTORY_APP_DIVS K0))" by code_simp
  from theData_eq [OF this] show ?thesis by (simp add: divsSite_def)
qed

lemma pagesSite_eq:
  "getUiComponentsData K0 H0 fsSite ''page'' (DIRECTORY_APP_PAGES K0) = Some (Inr pagesSite)"
proof -
  have "isData (getUiComponentsData K0 H0 fsSite ''page'' (DIRECTORY_APP_PAGES K0))" by code_simp
  from theData_eq [OF this] show ?thesis by (simp add: pagesSite_def)
qed

lemma tableSite_eq: "buildLookupTable K0 H0 fsSite = Some (Inr tableSite)"
proof -
  have "isTable (buildLookupTable K0 H0 fsSite)" by code_simp
  from theTable_eq [OF this] show ?thesis by (simp add: tableSite_def)
qed

lemma tableOrder_eq: "buildLookupTable K0 H0 fsOrder = Some (Inr tableOrder)"
proof -
  have "isTable (buildLookupTable K0 H0 fsOrder)" by code_simp
  from theTable_eq [OF this] show ?thesis by (simp add: tableOrder_def)
qed

lemma tableDisabled_eq: "buildLookupTable K0 H0 fsDisabled = Some (Inr tableDisabled)"
proof -
  have "isTable (buildLookupTable K0 H0 fsDisabled)" by code_simp
  from theTable_eq [OF this] show ?thesis by (simp add: tableDisabled_def)
qed

lemma divsShadow_eq:
  "getUiComponentsData K0 H0 fsShadow ''div'' (DIRECTORY_APP_DIVS K0) = Some (Inr divsShadow)"
proof -
  have "isData (getUiComponentsData K0 H0 fsShadow ''div'' (DIRECTORY_APP_DIVS K0))" by code_simp
  from theData_eq [OF this] show ?thesis by (simp add: divsShadow_def)
qed

lemma tableShadow_eq: "buildLookupTable K0 H0 fsShadow = Some (Inr tableShadow)"
proof -
  have "isTable (buildLookupTable K0 H0 fsShadow)" by code_simp
  from theTable_eq [OF this] show ?thesis by (simp add: tableShadow_def)
qed

lemma buildInvalid_eq:
  "buildLookupTable K0 H0 fsInvalid = Some (Inl (InvalidDefinition ''a.bad'' NoVersion))"
proof -
  have "(case buildLookupTable K0 H0 fsInvalid of
           Some (Inl e) \<Rightarrow> e = InvalidDefinition ''a.bad'' NoVersion | _ \<Rightarrow> False)"
    by code_simp
  then show ?thesis by (auto split: option.splits sum.splits)
qed

section \<open>The boolean coercion\<close>

text \<open>
  Claim C10. \<open>parseBoolean\<close> maps a boolean to itself, a number to whether it is greater
  than zero, a string to whether its lower-cased form is \<open>"true"\<close> or \<open>"yes"\<close>, \<open>null\<close>
  and \<open>undefined\<close> to the default given (to false when none is given), and every other
  value to true. So the strings \<open>"1"\<close> and \<open>"disabled"\<close> in the disabled field give
  false: the component counts as enabled.
\<close>

theorem parseBoolean_coercion:
  "parseBoolean (JBool b) d = b
   \<and> parseBoolean (JNum n) d = num_gt n (Fin 0)
   \<and> parseBoolean (JStr s) d = (toLowerCase s = ''true'' \<or> toLowerCase s = ''yes'')
   \<and> parseBoolean JNull (Some x) = x \<and> parseBoolean JUndefined (Some x) = x
   \<and> parseBoolean JNull None = False \<and> parseBoolean JUndefined None = False
   \<and> parseBoolean (JArr xs) d = True \<and> parseBoolean (JObj fs) d = True
   \<and> parseBoolean (JStr ''1'') None = False \<and> parseBoolean (JStr ''disabled'') None = False
   \<and> isEnabled K0 (exampleDiv ''a.b'' [(''disabled'', JStr ''1'')])
   \<and> isEnabled K0 (exampleDiv ''a.b'' [(''disabled'', JStr ''disabled'')])"
  by (simp add: Let_def toLowerCase_def toLowerChar_def isEnabled_def exampleDiv_def K0_def)

section \<open>The merge of definitions\<close>

text \<open>
  A property of the parent that the loop has not reached yet leaves the child's value
  alone; with distinct keys in the parent, a property of the parent that is an array
  ends as the value of the merged object, whatever the child had.
\<close>

lemma extend_props_other:
  "k \<notin> fst ` set ps \<Longrightarrow> map_of (extend_props cf ps) k = map_of cf k"
proof (induction ps arbitrary: cf)
  case Nil
  then show ?case by simp
next
  case (Cons p ps)
  obtain n v where p: "p = (n, v)" by (cases p)
  from Cons.prems p have nk: "n \<noteq> k" and rest: "k \<notin> fst ` set ps" by auto
  show ?case
    unfolding p extend_props.simps Cons.IH [OF rest]
    using nk by (cases v) (simp_all add: update_conv')
qed

lemma extend_props_array:
  "distinct (map fst ps) \<Longrightarrow> (k, JArr xs) \<in> set ps \<Longrightarrow>
   map_of (extend_props cf ps) k = Some (JArr xs)"
proof (induction ps arbitrary: cf)
  case Nil
  then show ?case by simp
next
  case (Cons p ps)
  obtain n v where p: "p = (n, v)" by (cases p)
  show ?case
  proof (cases "(k, JArr xs) \<in> set ps")
    case True
    with Cons.prems have "distinct (map fst ps)" by simp
    from Cons.IH [OF this True] show ?thesis unfolding p extend_props.simps .
  next
    case False
    with Cons.prems p have here: "n = k" "v = JArr xs" by auto
    from Cons.prems p here have "k \<notin> fst ` set ps" by auto
    from extend_props_other [OF this] show ?thesis
      unfolding p here extend_props.simps by (simp add: update_conv')
  qed
qed

lemma extend_array_field:
  assumes "distinct (map fst pf)" and "(k, JArr xs) \<in> set pf"
  shows "getProp (extend (JObj cf) (JObj pf)) k = JArr xs"
  using extend_props_array [OF assms] by simp

text \<open>
  Claim C1. In the merge, a field whose value in the child is a sequence keeps the
  child's sequence, also an empty one, and the parent's sequence is copied only when the
  child does not define the field. The code does otherwise: the branch for an array of
  the parent assigns it to the child without asking whether the child has the property,
  as the branch for a scalar does. Here the child's sequences (an empty one, and one
  with an element of its own) are replaced by the parent's.
\<close>

theorem extend_replaces_child_sequence:
  "extend (JObj [(''pushedUris'', JArr [])]) (JObj [(''pushedUris'', JArr [JStr ''/app/*''])])
     = JObj [(''pushedUris'', JArr [JStr ''/app/*''])]
   \<and> extend (JObj [(''pushedUris'', JArr [JStr ''/own'']), (''version'', JStr ''2'')])
        (JObj [(''version'', JStr ''1''), (''pushedUris'', JArr [JStr ''/app/*''])])
     = JObj [(''pushedUris'', JArr [JStr ''/app/*'']), (''version'', JStr ''2'')]"
  by (simp add: hasOwnProperty_def)

section \<open>The order of components\<close>

lemma indexOf_from_Ref_Str: "indexOf_from (map Ref xs) (Str s) i = - 1"
  by (induction xs arbitrary: i) auto

lemma indexOf_Ref_Str: "indexOf (map Ref xs) (Str s) = - 1"
  by (simp add: indexOf_def indexOf_from_Ref_Str)

lemma priority_not_NaN: "priority K H a \<noteq> NaN"
  by (simp add: priority_def isNaN_def Let_def)

text \<open>
  The two searches of a full name among the children never find it, so the comparison
  is by priority first and by the collation of the full names among equal priorities.
\<close>

lemma compare_eq:
  "compareRawUiComponents K H a b =
     (if num_eq (priority K H a) (priority K H b) then localeCompare H (fullName a) (fullName b)
      else if num_gt (priority K H a) (priority K H b) then 1 else - 1)"
  by (simp add: compareRawUiComponents_def priority_def Let_def indexOf_Ref_Str)

text \<open>
  Claim C2. Of two components with equal declared priorities, a child (direct or
  transitive) sorts before its parent, and two components that are not related sort by
  full name. The code means to do so (its comments say "'b' is a child of 'a', hence 'b'
  should come before 'a'") but searches the full name, a string, in the array of the
  children, which holds components: on the registry built from \<open>fsInherit\<close> the div
  \<open>b.child\<close> extends \<open>a.parent\<close>, both have the priority 5, and the comparison puts the
  parent first, as does the sorted array.
\<close>

theorem compare_parent_before_child:
  "getUiComponentsData K0 H0 fsInherit ''div'' (DIRECTORY_APP_DIVS K0) = Some (Inr divsInherit)
   \<and> fullName (cobjects divsInherit 0) = ''a.parent''
   \<and> fullName (cobjects divsInherit 1) = ''b.child''
   \<and> children (cobjects divsInherit 0) = [1]
   \<and> parents (cobjects divsInherit 1) = [0]
   \<and> priority K0 H0 (cobjects divsInherit 0) = Fin 5
   \<and> priority K0 H0 (cobjects divsInherit 1) = Fin 5
   \<and> compareRawUiComponents K0 H0 (cobjects divsInherit 0) (cobjects divsInherit 1) = - 1
   \<and> array divsInherit = [0, 1]"
proof -
  have "fullName (cobjects divsInherit 0) = ''a.parent''" by code_simp
  moreover have "fullName (cobjects divsInherit 1) = ''b.child''" by code_simp
  moreover have "children (cobjects divsInherit 0) = [1]" by code_simp
  moreover have "parents (cobjects divsInherit 1) = [0]" by code_simp
  moreover have "priority K0 H0 (cobjects divsInherit 0) = Fin 5" by code_simp
  moreover have "priority K0 H0 (cobjects divsInherit 1) = Fin 5" by code_simp
  moreover have "compareRawUiComponents K0 H0 (cobjects divsInherit 0) (cobjects divsInherit 1) = - 1"
    by code_simp
  moreover have "array divsInherit = [0, 1]" by code_simp
  ultimately show ?thesis using divsInherit_eq by simp
qed

text \<open>
  A consistent comparison is transitive on the strict side too, and swapping its
  arguments swaps the sign of its result.
\<close>

lemma consistent_strict:
  assumes "consistentComparison f" and "f s t < 0" and "f t u < 0"
  shows "f s u < 0"
proof -
  from assms(1) have anti: "\<And>s t. sgn (f t s) = - sgn (f s t)"
    and trans: "\<And>s t u. f s t \<le> 0 \<Longrightarrow> f t u \<le> 0 \<Longrightarrow> f s u \<le> 0"
    unfolding consistentComparison_def by blast+
  from trans [of s t u] assms(2,3) have le: "f s u \<le> 0" by simp
  show ?thesis
  proof (rule ccontr)
    assume "\<not> f s u < 0"
    with le have z: "f s u = 0" by simp
    with anti [of s u] have "f u s = 0" by (simp add: sgn_if split: if_splits)
    with trans [of u s t] assms(2) have "f u t \<le> 0" by simp
    with anti [of t u] assms(3) show False by (simp add: sgn_if split: if_splits)
  qed
qed

lemma consistent_swap:
  assumes "consistentComparison f"
  shows "(f t s < 0) = (0 < f s t)" and "(f t s = 0) = (f s t = 0)" and "(0 < f t s) = (f s t < 0)"
proof -
  from assms have "sgn (f t s) = - sgn (f s t)" unfolding consistentComparison_def by blast
  then show "(f t s < 0) = (0 < f s t)" and "(f t s = 0) = (f s t = 0)" and "(0 < f t s) = (f s t < 0)"
    by (auto simp: sgn_if split: if_splits)
qed

text \<open>The collation of the example host is a consistent comparison.\<close>

lemma exampleCollation_consistent: "consistentComparison exampleCollation"
  unfolding consistentComparison_def exampleCollation_def Let_def
  by (auto simp: sgn_if)

lemma H0_consistent: "consistentComparison (localeCompare H0)"
  by (simp add: H0_def exampleCollation_consistent)

text \<open>
  Claim C5, amended. With a collation that is a consistent comparison, as the standard
  asks of \<open>localeCompare\<close>, the comparison of two components of one type is a total
  order up to ties: its result is negative, zero or positive, swapping the arguments
  swaps the sign, and it is transitive. It is zero exactly when the two priorities are
  equal and the collation finds the two full names equal, which it does for one and the
  same full name and can do for two full names that differ.
\<close>

theorem compare_total_order:
  assumes "consistentComparison (localeCompare H)"
  shows "sgn (compareRawUiComponents K H b a) = - sgn (compareRawUiComponents K H a b)
   \<and> (compareRawUiComponents K H a b < 0 \<and> compareRawUiComponents K H b c < 0
        \<longrightarrow> compareRawUiComponents K H a c < 0)
   \<and> (compareRawUiComponents K H a b \<le> 0 \<and> compareRawUiComponents K H b c \<le> 0
        \<longrightarrow> compareRawUiComponents K H a c \<le> 0)
   \<and> (compareRawUiComponents K H a b = 0 \<longleftrightarrow>
        num_eq (priority K H a) (priority K H b)
        \<and> localeCompare H (fullName a) (fullName b) = 0)
   \<and> (fullName a = fullName b \<and> num_eq (priority K H a) (priority K H b)
        \<longrightarrow> compareRawUiComponents K H a b = 0)"
proof -
  let ?f = "localeCompare H"
  let ?pa = "priority K H a" and ?pb = "priority K H b" and ?pc = "priority K H c"
  from assms have refl: "\<And>s. ?f s s = 0"
    and trans: "\<And>s t u. ?f s t \<le> 0 \<Longrightarrow> ?f t u \<le> 0 \<Longrightarrow> ?f s u \<le> 0"
    unfolding consistentComparison_def by blast+
  note strict = consistent_strict [OF assms]
  note swap = consistent_swap [OF assms]
  have na: "?pa \<noteq> NaN" and nb: "?pb \<noteq> NaN" and nc: "?pc \<noteq> NaN"
    by (rule priority_not_NaN)+
  have c1: "sgn (compareRawUiComponents K H b a) = - sgn (compareRawUiComponents K H a b)"
    unfolding compare_eq using na nb swap [of "fullName b" "fullName a"]
    by (cases ?pa; cases ?pb) (auto simp: sgn_if)
  have c2: "compareRawUiComponents K H a b < 0 \<and> compareRawUiComponents K H b c < 0
        \<longrightarrow> compareRawUiComponents K H a c < 0"
    unfolding compare_eq using na nb nc strict [of "fullName a" "fullName b" "fullName c"]
    by (cases ?pa; cases ?pb; cases ?pc) (auto split: if_splits)
  have c3: "compareRawUiComponents K H a b \<le> 0 \<and> compareRawUiComponents K H b c \<le> 0
        \<longrightarrow> compareRawUiComponents K H a c \<le> 0"
    unfolding compare_eq using na nb nc trans [of "fullName a" "fullName b" "fullName c"]
    by (cases ?pa; cases ?pb; cases ?pc) (auto split: if_splits)
  have c4: "compareRawUiComponents K H a b = 0 \<longleftrightarrow>
        num_eq ?pa ?pb \<and> ?f (fullName a) (fullName b) = 0"
    unfolding compare_eq by auto
  have c5: "fullName a = fullName b \<and> num_eq ?pa ?pb
        \<longrightarrow> compareRawUiComponents K H a b = 0"
    unfolding compare_eq using refl by auto
  from c1 c2 c3 c4 c5 show ?thesis by blast
qed

theorem compare_total_order_witness:
  "consistentComparison (localeCompare H0)
   \<and> compareRawUiComponents K0 H0 (exampleDiv ''b.two'' [(''index'', JNum (Fin 1))])
      (exampleDiv ''a.one'' [(''index'', JNum (Fin 2))]) < 0
   \<and> compareRawUiComponents K0 H0 (exampleDiv ''a.one'' [(''index'', JNum (Fin 2))])
      (exampleDiv ''c.three'' []) < 0
   \<and> compareRawUiComponents K0 H0 (exampleDiv ''b.two'' [(''index'', JNum (Fin 1))])
      (exampleDiv ''c.three'' []) < 0
   \<and> compareRawUiComponents K0 H0 (exampleDiv ''b.two'' [(''index'', JNum (Fin 1))])
      (exampleDiv ''c.three'' []) \<le> 0
   \<and> sgn (compareRawUiComponents K0 H0 (exampleDiv ''a.one'' [(''index'', JNum (Fin 2))])
        (exampleDiv ''b.two'' [(''index'', JNum (Fin 1))])) = 1
   \<and> compareRawUiComponents K0 H0 (exampleDiv ''a.x'' []) (exampleDiv ''B.x'' []) < 0
   \<and> compareRawUiComponents K0 H0 (exampleDiv ''B.x'' []) (exampleDiv ''c.three'' []) < 0
   \<and> compareRawUiComponents K0 H0 (exampleDiv ''a.x'' []) (exampleDiv ''c.three'' []) < 0
   \<and> sgn (compareRawUiComponents K0 H0 (exampleDiv ''B.x'' []) (exampleDiv ''a.x'' [])) = 1
   \<and> compareRawUiComponents K0 H0 (exampleDiv ''c.three'' [])
      (exampleDiv ''c.three'' [(''version'', JStr ''1.0'')]) = 0
   \<and> localeCompare H0 ''c.three'' ''c.three'' = 0"
proof -
  let ?a = "exampleDiv ''b.two'' [(''index'', JNum (Fin 1))]"
  let ?b = "exampleDiv ''a.one'' [(''index'', JNum (Fin 2))]"
  let ?c = "exampleDiv ''c.three'' []"
  let ?d = "exampleDiv ''c.three'' [(''version'', JStr ''1.0'')]"
  let ?x = "exampleDiv ''a.x'' []"
  let ?y = "exampleDiv ''B.x'' []"
  note T = compare_total_order [OF H0_consistent]
  have ab: "compareRawUiComponents K0 H0 ?a ?b < 0" by code_simp
  have bc: "compareRawUiComponents K0 H0 ?b ?c < 0" by code_simp
  have xy: "compareRawUiComponents K0 H0 ?x ?y < 0" by code_simp
  have yc: "compareRawUiComponents K0 H0 ?y ?c < 0" by code_simp
  have n: "fullName ?c = fullName ?d" by (simp add: exampleDiv_def)
  have pr: "num_eq (priority K0 H0 ?c) (priority K0 H0 ?d)" by code_simp
  from T [where K = K0 and a = ?a and b = ?b and c = ?c] ab bc
  have ac: "compareRawUiComponents K0 H0 ?a ?c < 0" by blast
  from T [where K = K0 and a = ?a and b = ?b and c = ?c] ab bc
  have ac': "compareRawUiComponents K0 H0 ?a ?c \<le> 0" by simp
  from T [where K = K0 and a = ?a and b = ?b and c = ?c] ab
  have ba: "sgn (compareRawUiComponents K0 H0 ?b ?a) = 1"
    by (simp add: sgn_if)
  from T [where K = K0 and a = ?x and b = ?y and c = ?c] xy yc
  have xc: "compareRawUiComponents K0 H0 ?x ?c < 0" by blast
  from T [where K = K0 and a = ?x and b = ?y and c = ?c] xy
  have yx: "sgn (compareRawUiComponents K0 H0 ?y ?x) = 1"
    by (simp add: sgn_if)
  from T [where K = K0 and a = ?c and b = ?d and c = ?c] n pr
  have cd: "compareRawUiComponents K0 H0 ?c ?d = 0" by blast
  from T [where K = K0 and a = ?c and b = ?d and c = ?c] cd
  have "localeCompare H0 (fullName ?c) (fullName ?d) = 0" by blast
  then have l: "localeCompare H0 ''c.three'' ''c.three'' = 0" by (simp add: exampleDiv_def)
  from H0_consistent ab bc ac ac' ba xy yc xc yx cd l show ?thesis by blast
qed

text \<open>
  The claim as stated fails where the collation does not tell two full names apart: the
  names \<open>a.x\<close> and \<open>a.x\<close> followed by the control character U+0001 differ, and the
  comparison of two components with these names and no declared priority is zero.
\<close>

theorem compare_zero_on_distinct_names:
  "compareRawUiComponents K0 H0 (exampleDiv ''a.x'' []) (exampleDiv (''a.x'' @ [CHR 0x01]) []) = 0
   \<and> fullName (exampleDiv ''a.x'' []) \<noteq> fullName (exampleDiv (''a.x'' @ [CHR 0x01]) [])"
proof -
  have "compareRawUiComponents K0 H0 (exampleDiv ''a.x'' []) (exampleDiv (''a.x'' @ [CHR 0x01]) []) = 0"
    by code_simp
  then show ?thesis by (simp add: exampleDiv_def)
qed

section \<open>The file of a component\<close>

lemma parentsLoop_find:
  "parentsLoop fs h rel ps = List.find (isFile fs) (map (\<lambda>a. path (h a) @ rel) ps)"
  by (induction ps) (simp_all add: isFile_def Let_def)

text \<open>
  The distance that the inner loop computes is the position of the first parent that
  \<open>equals\<close> the component; it is \<open>-1\<close> when no parent does.
\<close>

lemma distanceLoop_position:
  "distanceLoop M h p ps j =
     (if \<exists>q\<in>set ps. equals M h p q
      then j + int (length (takeWhile (\<lambda>q. \<not> equals M h p q) ps))
      else - 1)"
  by (induction ps arbitrary: j) auto

lemma distanceFrom_ge: "- 1 \<le> distanceFrom M h u c"
  by (simp add: distanceFrom_def distanceLoop_position)

lemma distanceFrom_found:
  "\<exists>q\<in>set (parents (h c)). equals M h u q \<Longrightarrow> 0 \<le> distanceFrom M h u c"
  by (simp add: distanceFrom_def distanceLoop_position)

text \<open>
  The loop over the children keeps a child and its distance. It replaces them by the
  current child when that one is further, or as far and preferred by \<open>compareTo\<close>,
  so the child it returns is a child whose distance no other child exceeds.
\<close>

lemma furthestLoop_Cons_cases:
  assumes "furthestLoop M h p (x # cs) fc fd = Inr r"
  obtains (take) "fd < distanceFrom M h p x \<or> (fd = distanceFrom M h p x \<and> compareTo M h x fc = 1)"
      "furthestLoop M h p cs (Some x) (distanceFrom M h p x) = Inr r"
    | (keep) "distanceFrom M h p x < fd \<or> (distanceFrom M h p x = fd \<and> compareTo M h x fc \<noteq> 1)"
      "furthestLoop M h p cs fc fd = Inr r"
  using assms
  by (auto simp: Let_def distanceFrom_def split: if_splits option.splits)

lemma furthestLoop_max:
  assumes "case fc of None \<Rightarrow> fd = - 1 | Some c0 \<Rightarrow> fd = distanceFrom M h p c0"
    and "furthestLoop M h p cs fc fd = Inr (Some c)"
  shows "(c \<in> set cs \<or> fc = Some c) \<and> fd \<le> distanceFrom M h p c
         \<and> (\<forall>c'\<in>set cs. distanceFrom M h p c' \<le> distanceFrom M h p c)"
  using assms
proof (induction cs arbitrary: fc fd)
  case Nil
  then show ?case by (auto split: option.splits)
next
  case (Cons x cs)
  from Cons.prems(2) show ?case
  proof (cases rule: furthestLoop_Cons_cases)
    case take
    have "case Some x of None \<Rightarrow> distanceFrom M h p x = - 1
          | Some c0 \<Rightarrow> distanceFrom M h p x = distanceFrom M h p c0"
      by simp
    from Cons.IH [OF this take(2)] take(1) show ?thesis by auto
  next
    case keep
    from Cons.IH [OF Cons.prems(1) keep(2)] keep(1) show ?thesis by auto
  qed
qed

lemma getFurthestChild_furthest:
  assumes "getFurthestChild M h u = Inr (Some c)"
  shows "isFurthestChild M h u c"
proof (cases "children (h u) = []")
  case True
  with assms show ?thesis by (simp add: getFurthestChild_def isFurthestChild_def)
next
  case False
  with assms have "furthestLoop M h u (children (h u)) None (- 1) = Inr (Some c)"
    by (simp add: getFurthestChild_def)
  from furthestLoop_max [OF _ this] False show ?thesis
    by (simp add: isFurthestChild_def)
qed

text \<open>
  Among the children that are as far, \<open>compareTo\<close> decides. The child returned is at
  some position of the list of children. No child after it has replaced it: each is
  nearer, or as far and not preferred to it. And it was taken when the loop came to it:
  it is further than every child before it, or as far as one of them and preferred to
  it, or it has the distance \<open>-1\<close> and is preferred to \<open>null\<close>.
\<close>

lemma furthestLoop_last:
  assumes "case fc of None \<Rightarrow> fd = - 1 | Some c0 \<Rightarrow> fd = distanceFrom M h p c0"
    and "furthestLoop M h p cs fc fd = Inr (Some c)"
  shows "(fc = Some c
          \<and> (\<forall>c'\<in>set cs. distanceFrom M h p c' < distanceFrom M h p c
                \<or> (distanceFrom M h p c' = distanceFrom M h p c \<and> compareTo M h c' (Some c) \<noteq> 1)))
       \<or> (\<exists>pre post. cs = pre @ c # post
            \<and> (\<forall>c'\<in>set post. distanceFrom M h p c' < distanceFrom M h p c
                  \<or> (distanceFrom M h p c' = distanceFrom M h p c \<and> compareTo M h c' (Some c) \<noteq> 1))
            \<and> ((fd < distanceFrom M h p c \<and> (\<forall>c'\<in>set pre. distanceFrom M h p c' < distanceFrom M h p c))
               \<or> (\<exists>f\<in>set pre. distanceFrom M h p f = distanceFrom M h p c \<and> compareTo M h c (Some f) = 1)
               \<or> (fd = distanceFrom M h p c \<and> compareTo M h c fc = 1)))"
  using assms
proof (induction cs arbitrary: fc fd)
  case Nil
  then show ?case by simp
next
  case (Cons x cs)
  let ?d = "distanceFrom M h p"
  let ?stays = "\<lambda>c'. ?d c' < ?d c \<or> (?d c' = ?d c \<and> compareTo M h c' (Some c) \<noteq> 1)"
  from Cons.prems(2) show ?case
  proof (cases rule: furthestLoop_Cons_cases)
    case take
    have inv: "case Some x of None \<Rightarrow> ?d x = - 1 | Some c0 \<Rightarrow> ?d x = ?d c0" by simp
    from Cons.IH [OF inv take(2)]
    consider (here) "x = c" "\<forall>c'\<in>set cs. ?stays c'"
      | (later) pre post where "cs = pre @ c # post" "\<forall>c'\<in>set post. ?stays c'"
          "(?d x < ?d c \<and> (\<forall>c'\<in>set pre. ?d c' < ?d c))
           \<or> (\<exists>f\<in>set pre. ?d f = ?d c \<and> compareTo M h c (Some f) = 1)
           \<or> (?d x = ?d c \<and> compareTo M h c (Some x) = 1)"
      by blast
    then show ?thesis
    proof cases
      case here
      have "x # cs = [] @ c # cs" using here(1) by simp
      moreover have "(fd < ?d c \<and> (\<forall>c'\<in>set []. ?d c' < ?d c))
                     \<or> (\<exists>f\<in>set []. ?d f = ?d c \<and> compareTo M h c (Some f) = 1)
                     \<or> (fd = ?d c \<and> compareTo M h c fc = 1)"
        using take(1) here(1) by auto
      ultimately show ?thesis using here(2) by blast
    next
      case later
      have "x # cs = (x # pre) @ c # post" using later(1) by simp
      moreover have "(fd < ?d c \<and> (\<forall>c'\<in>set (x # pre). ?d c' < ?d c))
                     \<or> (\<exists>f\<in>set (x # pre). ?d f = ?d c \<and> compareTo M h c (Some f) = 1)
                     \<or> (fd = ?d c \<and> compareTo M h c fc = 1)"
        using take(1) later(3) by auto
      ultimately show ?thesis using later(2) by blast
    qed
  next
    case keep
    from Cons.IH [OF Cons.prems(1) keep(2)]
    consider (held) "fc = Some c" "\<forall>c'\<in>set cs. ?stays c'"
      | (later) pre post where "cs = pre @ c # post" "\<forall>c'\<in>set post. ?stays c'"
          "(fd < ?d c \<and> (\<forall>c'\<in>set pre. ?d c' < ?d c))
           \<or> (\<exists>f\<in>set pre. ?d f = ?d c \<and> compareTo M h c (Some f) = 1)
           \<or> (fd = ?d c \<and> compareTo M h c fc = 1)"
      by blast
    then show ?thesis
    proof cases
      case held
      with Cons.prems(1) have "fd = ?d c" by simp
      with keep(1) held(1) have "?stays x" by auto
      with held show ?thesis by simp
    next
      case later
      have "x # cs = (x # pre) @ c # post" using later(1) by simp
      moreover have "(fd < ?d c \<and> (\<forall>c'\<in>set (x # pre). ?d c' < ?d c))
                     \<or> (\<exists>f\<in>set (x # pre). ?d f = ?d c \<and> compareTo M h c (Some f) = 1)
                     \<or> (fd = ?d c \<and> compareTo M h c fc = 1)"
        using keep(1) later(3) by auto
      ultimately show ?thesis using later(2) by blast
    qed
  qed
qed

lemma getFurthestChild_tie:
  assumes "getFurthestChild M h u = Inr (Some c)" and "children (h u) \<noteq> []"
  shows "\<exists>pre post. children (h u) = pre @ c # post
           \<and> (\<forall>c'\<in>set post. distanceFrom M h u c' < distanceFrom M h u c
                 \<or> (distanceFrom M h u c' = distanceFrom M h u c \<and> compareTo M h c' (Some c) \<noteq> 1))
           \<and> ((\<forall>c'\<in>set pre. distanceFrom M h u c' < distanceFrom M h u c)
              \<or> (\<exists>f\<in>set pre. distanceFrom M h u f = distanceFrom M h u c \<and> compareTo M h c (Some f) = 1)
              \<or> (distanceFrom M h u c = - 1 \<and> compareTo M h c None = 1))"
proof -
  from assms have "furthestLoop M h u (children (h u)) None (- 1) = Inr (Some c)"
    by (simp add: getFurthestChild_def)
  from furthestLoop_last [OF _ this]
  obtain pre post where "children (h u) = pre @ c # post"
    "\<forall>c'\<in>set post. distanceFrom M h u c' < distanceFrom M h u c
         \<or> (distanceFrom M h u c' = distanceFrom M h u c \<and> compareTo M h c' (Some c) \<noteq> 1)"
    "(- 1 < distanceFrom M h u c \<and> (\<forall>c'\<in>set pre. distanceFrom M h u c' < distanceFrom M h u c))
       \<or> (\<exists>f\<in>set pre. distanceFrom M h u f = distanceFrom M h u c \<and> compareTo M h c (Some f) = 1)
       \<or> (- 1 = distanceFrom M h u c \<and> compareTo M h c None = 1)"
    by auto
  then show ?thesis by (intro exI [of _ pre] exI [of _ post]) auto
qed

text \<open>
  The furthest child exists (no error, and not \<open>null\<close>) when every child of the
  component has it among its parents, as every child that the inheritance loop records
  has (lemma \<open>built_registry_linked\<close> below).
\<close>

lemma furthestLoop_chosen:
  "\<exists>c. furthestLoop M h p cs (Some f) fd = Inr (Some c)"
  by (induction cs arbitrary: f fd) (auto simp: Let_def)

lemma getFurthestChild_exists:
  assumes "\<forall>c\<in>set (children (h u)). \<exists>q\<in>set (parents (h c)). equals M h u q"
  shows "\<exists>c. getFurthestChild M h u = Inr (Some c)"
proof (cases "children (h u)")
  case Nil
  then show ?thesis by (simp add: getFurthestChild_def)
next
  case (Cons x cs)
  with assms have "0 \<le> distanceFrom M h u x" by (simp add: distanceFrom_found)
  then have "furthestLoop M h u (x # cs) None (- 1)
               = furthestLoop M h u cs (Some x) (distanceFrom M h u x)"
    by (simp add: Let_def distanceFrom_def)
  with furthestLoop_chosen [of M h u cs x "distanceFrom M h u x"] Cons
  show ?thesis by (simp add: getFurthestChild_def)
qed

lemma linked_children:
  assumes "linked h" and "\<forall>a. equals M h a a"
  shows "\<forall>c\<in>set (children (h u)). \<exists>q\<in>set (parents (h c)). equals M h u q"
  using assms unfolding linked_def by blast

text \<open>
  Claim C9. The component that \<open>utils.getFurthestChild\<close> returns is a furthest child:
  the component itself when it has no children, else a child whose distance from the
  component no other child exceeds; among the children that are as far it is the one
  that \<open>compareTo\<close> has preferred, as said above. The distance of a child is the
  number of its parents that come before the component (before the first parent that
  \<open>equals\<close> it), and \<open>-1\<close> when the component is not among them. The file of a component for a
  relative path (with a \<open>/\<close> put in front of it when it has none) is the first file
  that exists in the directory of that furthest child and then in those of its parents,
  nearest first: the file of the furthest child's directory when it exists there, else
  the first one found along the parents, and \<open>null\<close> exactly when no directory of the
  chain has the file. The furthest child exists whenever every child of the component
  has the component among its parents; when \<open>utils.getFurthestChild\<close> throws or
  returns \<open>null\<close>, the resolution of the file throws.
\<close>

theorem file_resolution:
  "(getFurthestChild M h u = Inr (Some c) \<longrightarrow>
      isFurthestChild M h u c
      \<and> getFileInUiComponent M fs h u rel =
           Inr (List.find (isFile fs) (map (\<lambda>a. path (h a) @ normalise rel) (c # parents (h c))))
      \<and> (getFileInUiComponent M fs h u rel = Inr None \<longleftrightarrow>
           (\<forall>a \<in> set (c # parents (h c)). \<not> isFile fs (path (h a) @ normalise rel))))
   \<and> ((\<forall>c'\<in>set (children (h u)). \<exists>q\<in>set (parents (h c')). equals M h u q) \<longrightarrow>
        (\<exists>c'. getFurthestChild M h u = Inr (Some c')))
   \<and> (getFurthestChild M h u = Inr (Some c) \<and> children (h u) \<noteq> [] \<longrightarrow>
        (\<exists>pre post. children (h u) = pre @ c # post
           \<and> (\<forall>c'\<in>set post. distanceFrom M h u c' < distanceFrom M h u c
                 \<or> (distanceFrom M h u c' = distanceFrom M h u c \<and> compareTo M h c' (Some c) \<noteq> 1))
           \<and> ((\<forall>c'\<in>set pre. distanceFrom M h u c' < distanceFrom M h u c)
              \<or> (\<exists>f\<in>set pre. distanceFrom M h u f = distanceFrom M h u c
                     \<and> compareTo M h c (Some f) = 1)
              \<or> (distanceFrom M h u c = - 1 \<and> compareTo M h c None = 1))))
   \<and> (getFurthestChild M h u = Inl e \<longrightarrow> getFileInUiComponent M fs h u rel = Inl e)
   \<and> (getFurthestChild M h u = Inr None \<longrightarrow> getFileInUiComponent M fs h u rel = Inl TypeError)
   \<and> distanceFrom M h u d =
        (if \<exists>q\<in>set (parents (h d)). equals M h u q
         then int (length (takeWhile (\<lambda>q. \<not> equals M h u q) (parents (h d))))
         else - 1)"
proof (intro conjI impI)
  assume a: "getFurthestChild M h u = Inr (Some c)"
  then show "isFurthestChild M h u c" by (rule getFurthestChild_furthest)
  from a show eq: "getFileInUiComponent M fs h u rel =
           Inr (List.find (isFile fs) (map (\<lambda>a. path (h a) @ normalise rel) (c # parents (h c))))"
    by (simp add: getFileInUiComponent_def Let_def parentsLoop_find isFile_def)
  show "getFileInUiComponent M fs h u rel = Inr None \<longleftrightarrow>
           (\<forall>a \<in> set (c # parents (h c)). \<not> isFile fs (path (h a) @ normalise rel))"
    unfolding eq by (auto simp: find_None_iff)
next
  assume "\<forall>c'\<in>set (children (h u)). \<exists>q\<in>set (parents (h c')). equals M h u q"
  then show "\<exists>c'. getFurthestChild M h u = Inr (Some c')" by (rule getFurthestChild_exists)
next
  assume "getFurthestChild M h u = Inr (Some c) \<and> children (h u) \<noteq> []"
  then have "getFurthestChild M h u = Inr (Some c)" "children (h u) \<noteq> []" by simp_all
  then show "\<exists>pre post. children (h u) = pre @ c # post
           \<and> (\<forall>c'\<in>set post. distanceFrom M h u c' < distanceFrom M h u c
                 \<or> (distanceFrom M h u c' = distanceFrom M h u c \<and> compareTo M h c' (Some c) \<noteq> 1))
           \<and> ((\<forall>c'\<in>set pre. distanceFrom M h u c' < distanceFrom M h u c)
              \<or> (\<exists>f\<in>set pre. distanceFrom M h u f = distanceFrom M h u c
                     \<and> compareTo M h c (Some f) = 1)
              \<or> (distanceFrom M h u c = - 1 \<and> compareTo M h c None = 1))"
    by (rule getFurthestChild_tie)
next
  assume "getFurthestChild M h u = Inl e"
  then show "getFileInUiComponent M fs h u rel = Inl e"
    by (simp add: getFileInUiComponent_def Let_def)
next
  assume "getFurthestChild M h u = Inr None"
  then show "getFileInUiComponent M fs h u rel = Inl TypeError"
    by (simp add: getFileInUiComponent_def Let_def)
next
  show "distanceFrom M h u d =
        (if \<exists>q\<in>set (parents (h d)). equals M h u q
         then int (length (takeWhile (\<lambda>q. \<not> equals M h u q) (parents (h d))))
         else - 1)"
    by (simp add: distanceFrom_def distanceLoop_position)
qed

theorem file_resolution_witness:
  "getFurthestChild M0 storeFamily 0 = Inr (Some 4)
   \<and> isFurthestChild M0 storeFamily 0 4
   \<and> children (storeFamily 0) = [1, 2, 3, 4, 5]
   \<and> distanceFrom M0 storeFamily 0 1 = 0
   \<and> distanceFrom M0 storeFamily 0 2 = 1
   \<and> distanceFrom M0 storeFamily 0 3 = 0
   \<and> distanceFrom M0 storeFamily 0 4 = 1
   \<and> distanceFrom M0 storeFamily 0 5 = 1
   \<and> compareTo M0 storeFamily 4 (Some 2) = 1
   \<and> compareTo M0 storeFamily 5 (Some 4) = - 1
   \<and> (\<exists>pre post. children (storeFamily 0) = pre @ 4 # post
         \<and> (\<exists>f. f \<in> set pre \<and> distanceFrom M0 storeFamily 0 f = 1
                \<and> compareTo M0 storeFamily 4 (Some f) = 1))
   \<and> parents (storeFamily 4) = [1, 0]
   \<and> getFileInUiComponent M0 fsParentFile storeFamily 0 ''x.hbs'' = Inr (Some ''/d/b.mid/x.hbs'')
   \<and> getFileInUiComponent M0 fsParentFile storeFamily 0 ''y.js'' = Inr None"
proof -
  have pre: "\<forall>c'\<in>set (children (storeFamily 0)). \<exists>q\<in>set (parents (storeFamily c')).
               equals M0 storeFamily 0 q"
    by code_simp
  have c: "getFurthestChild M0 storeFamily 0 = Inr (Some 4)" by code_simp
  have ch: "children (storeFamily 0) = [1, 2, 3, 4, 5]" by code_simp
  have d1: "distanceFrom M0 storeFamily 0 1 = 0" by code_simp
  have d2: "distanceFrom M0 storeFamily 0 2 = 1" by code_simp
  have d3: "distanceFrom M0 storeFamily 0 3 = 0" by code_simp
  have d4: "distanceFrom M0 storeFamily 0 4 = 1" by code_simp
  have d5: "distanceFrom M0 storeFamily 0 5 = 1" by code_simp
  have k1: "compareTo M0 storeFamily 4 (Some 2) = 1" by code_simp
  have k2: "compareTo M0 storeFamily 5 (Some 4) = - 1" by code_simp
  have pa: "parents (storeFamily 4) = [1, 0]" by code_simp
  have l1: "List.find (isFile fsParentFile)
      (map (\<lambda>a. path (storeFamily a) @ normalise ''x.hbs'') (4 # parents (storeFamily 4)))
      = Some ''/d/b.mid/x.hbs''"
    by code_simp
  have l2: "List.find (isFile fsParentFile)
      (map (\<lambda>a. path (storeFamily a) @ normalise ''y.js'') (4 # parents (storeFamily 4))) = None"
    by code_simp
  note T1 = file_resolution [where M = M0 and h = storeFamily and u = 0 and c = 4
      and fs = fsParentFile and rel = "''x.hbs''" and d = 4]
  note T2 = file_resolution [where M = M0 and h = storeFamily and u = 0 and c = 4
      and fs = fsParentFile and rel = "''y.js''" and d = 4]
  from T1 pre have "\<exists>c'. getFurthestChild M0 storeFamily 0 = Inr (Some c')" by blast
  from T1 c have f: "isFurthestChild M0 storeFamily 0 4" by blast
  have ne: "children (storeFamily 0) \<noteq> []" using ch by simp
  from T1 c ne obtain pre post where
    split: "children (storeFamily 0) = pre @ 4 # post"
    and why: "(\<forall>c'\<in>set pre. distanceFrom M0 storeFamily 0 c' < distanceFrom M0 storeFamily 0 4)
              \<or> (\<exists>f\<in>set pre. distanceFrom M0 storeFamily 0 f = distanceFrom M0 storeFamily 0 4
                     \<and> compareTo M0 storeFamily 4 (Some f) = 1)
              \<or> (distanceFrom M0 storeFamily 0 4 = - 1 \<and> compareTo M0 storeFamily 4 None = 1)"
    by blast
  from split ch have "pre = [1, 2, 3]"
    by (auto simp: append_eq_Cons_conv Cons_eq_append_conv)
  with why d2 d4 have "\<exists>f. f \<in> set pre \<and> distanceFrom M0 storeFamily 0 f = 1
                \<and> compareTo M0 storeFamily 4 (Some f) = 1"
    by auto
  with split have t: "\<exists>pre post. children (storeFamily 0) = pre @ 4 # post
         \<and> (\<exists>f. f \<in> set pre \<and> distanceFrom M0 storeFamily 0 f = 1
                \<and> compareTo M0 storeFamily 4 (Some f) = 1)"
    by blast
  from T1 c l1 have r1: "getFileInUiComponent M0 fsParentFile storeFamily 0 ''x.hbs''
      = Inr (Some ''/d/b.mid/x.hbs'')"
    by simp
  from T2 c l2 have r2: "getFileInUiComponent M0 fsParentFile storeFamily 0 ''y.js'' = Inr None"
    by simp
  from c f ch d1 d2 d3 d4 d5 k1 k2 t pa r1 r2 show ?thesis by blast
qed

section \<open>Sorting permutes\<close>

lemma mset_insertSorted: "mset (insertSorted cmp x ys) = add_mset x (mset ys)"
  by (induction ys) simp_all

lemma mset_sortArray: "mset (sortArray cmp xs) = mset xs"
  unfolding sortArray_def by (induction xs) (simp_all add: mset_insertSorted)

lemma set_sortArray: "set (sortArray cmp xs) = set xs"
  using mset_sortArray [of cmp xs] by (metis set_mset_mset)

lemma distinct_sortArray: "distinct (sortArray cmp xs) = distinct xs"
  using mset_sortArray [of cmp xs] by (rule mset_eq_imp_distinct_iff)

lemma length_sortArray: "length (sortArray cmp xs) = length xs"
  using mset_sortArray [of cmp xs] by (metis size_mset)


section \<open>Discovery and the names of the components\<close>

lemma discovered_empty: "discovered emptyRegistry []"
  by (simp add: discovered_def emptyRegistry_def isLastOfName_def new_UIComponent_def)

lemma discovered_add:
  assumes "discovered r names" and "fullName c = n" and "children c = []"
  shows "discovered
           \<lparr>uiComponentsMap = (uiComponentsMap r)(n \<mapsto> length (uiComponentsList r)),
            uiComponentsList = uiComponentsList r @ [length (uiComponentsList r)],
            objects = (objects r)(length (uiComponentsList r) := c)\<rparr>
           (names @ [n])"
proof -
  from assms(1) have len: "length (uiComponentsList r) = length names"
    and names: "map (\<lambda>a. fullName (objects r a)) [0..<length names] = names"
    and lst: "uiComponentsList r = [0..<length names]"
    and mp1: "\<And>k a. uiComponentsMap r k = Some a \<Longrightarrow> a < length names"
    and mp2: "\<And>k a. uiComponentsMap r k = Some a \<Longrightarrow> names ! a = k"
    and dm: "dom (uiComponentsMap r) = set names"
    and last: "\<And>k a. uiComponentsMap r k = Some a \<longleftrightarrow> isLastOfName names k a"
    and ch: "\<And>a. children (objects r a) = []"
    by (auto simp: discovered_def)
  have "map (\<lambda>a. fullName (((objects r)(length names := c)) a)) [0..<length names]
        = map (\<lambda>a. fullName (objects r a)) [0..<length names]"
    by (rule map_cong) auto
  with names have m: "map (\<lambda>a. fullName (((objects r)(length names := c)) a)) [0..<length names] = names"
    by simp
  have "\<forall>k a. ((uiComponentsMap r)(n \<mapsto> length names)) k = Some a \<longrightarrow>
          a < length (names @ [n]) \<and> (names @ [n]) ! a = k"
    using mp1 mp2 by (auto simp: nth_append less_Suc_eq split: if_splits)
  moreover have "dom ((uiComponentsMap r)(n \<mapsto> length names)) = set (names @ [n])"
    using dm by auto
  moreover have "\<forall>k a. ((uiComponentsMap r)(n \<mapsto> length names)) k = Some a
                   \<longleftrightarrow> isLastOfName (names @ [n]) k a"
  proof (intro allI)
    fix k a
    show "((uiComponentsMap r)(n \<mapsto> length names)) k = Some a
            \<longleftrightarrow> isLastOfName (names @ [n]) k a"
    proof (cases "k = n")
      case True
      have "isLastOfName (names @ [n]) n a \<longleftrightarrow> a = length names"
      proof
        assume l: "isLastOfName (names @ [n]) n a"
        show "a = length names"
        proof (rule ccontr)
          assume "a \<noteq> length names"
          with l have a: "a < length names" by (simp add: isLastOfName_def)
          from l have "\<forall>b. a < b \<and> b < length (names @ [n]) \<longrightarrow> (names @ [n]) ! b \<noteq> n"
            unfolding isLastOfName_def by blast
          then have "a < length names \<and> length names < length (names @ [n])
                       \<longrightarrow> (names @ [n]) ! length names \<noteq> n" by (rule spec)
          with a show False by simp
        qed
      next
        assume "a = length names"
        then show "isLastOfName (names @ [n]) n a" by (auto simp: isLastOfName_def)
      qed
      with True show ?thesis by auto
    next
      case False
      have "isLastOfName (names @ [n]) k a \<longleftrightarrow> isLastOfName names k a"
        using False unfolding isLastOfName_def
        by (auto simp: nth_append less_Suc_eq split: if_splits)
      with False last [of k a] show ?thesis by simp
    qed
  qed
  moreover have "\<forall>a. children (((objects r)(length names := c)) a) = []"
    using ch assms(3) by simp
  ultimately show ?thesis
    using m assms(2) lst by (simp add: discovered_def len)
qed

lemma populateLoop_discovered:
  "discovered r names \<Longrightarrow> populateLoop fs cp ct es r = Inr r' \<Longrightarrow>
   discovered r' (names @ map getName (filter isDirectory es))"
proof (induction es arbitrary: r names)
  case Nil
  then show ?case by simp
next
  case (Cons e es)
  show ?case
  proof (cases "isDirectory e")
    case False
    with Cons.prems(2) have "populateLoop fs cp ct es r = Inr r'" by simp
    from Cons.IH [OF Cons.prems(1) this] False show ?thesis by simp
  next
    case True
    let ?n = "getName e"
    let ?s = "substr ?n (lastIndexOf ?n (CHR ''.'') + 1)"
    let ?p = "cp @ ''/'' @ ?n"
    let ?c = "new_UIComponent
                \<lparr>fullName := ?n, shortName := ?s, path := ?p, uiType := ct,
                 definitionDoc := JObj (require fs (?p @ ''/'' @ ?s @ ''.json'')),
                 templateFilePath :=
                   (if isFile fs (?p @ ''/'' @ ?s @ ''.hbs'') then Some (?p @ ''/'' @ ?s @ ''.hbs'') else None),
                 scriptFilePath :=
                   (if isFile fs (?p @ ''/'' @ ?s @ ''.js'') then Some (?p @ ''/'' @ ?s @ ''.js'') else None)\<rparr>"
    have c: "fullName ?c = getName e" by simp
    have nc: "children ?c = []" by (simp add: new_UIComponent_def)
    from Cons.prems(2) True have
      rest: "populateLoop fs cp ct es
                   \<lparr>uiComponentsMap = (uiComponentsMap r)(getName e \<mapsto> length (uiComponentsList r)),
                    uiComponentsList = uiComponentsList r @ [length (uiComponentsList r)],
                    objects = (objects r)(length (uiComponentsList r) := ?c)\<rparr> = Inr r'"
      by (simp add: Let_def split: if_splits)
    from Cons.IH [OF discovered_add [OF Cons.prems(1) c nc] rest] True show ?thesis by simp
  qed
qed

lemma collectionsLoop_discovered:
  "discovered r names \<Longrightarrow> collectionsLoop K fs ct cp cs r = Inr r' \<Longrightarrow>
   discovered r' (names @ concat (map (\<lambda>c. map getName (filter isDirectory
                    (listFiles fs (DIRECTORY_APP_COMPONENTS K @ ''/'' @ getName c @ cp))))
               (filter isDirectory cs)))"
proof (induction cs arbitrary: r names)
  case Nil
  then show ?case by simp
next
  case (Cons c cs)
  show ?case
  proof (cases "isDirectory c")
    case False
    with Cons.prems(2) have "collectionsLoop K fs ct cp cs r = Inr r'" by simp
    from Cons.IH [OF Cons.prems(1) this] False show ?thesis by simp
  next
    case True
    with Cons.prems(2) obtain r1 where
      r1: "populateLoop fs (DIRECTORY_APP_COMPONENTS K @ ''/'' @ getName c @ cp) ct
             (listFiles fs (DIRECTORY_APP_COMPONENTS K @ ''/'' @ getName c @ cp)) r = Inr r1"
      and rest: "collectionsLoop K fs ct cp cs r1 = Inr r'"
      by (auto simp: Let_def populateComponentCollections_def split: sum.splits)
    from Cons.IH [OF populateLoop_discovered [OF Cons.prems(1) r1] rest] True
    show ?thesis by simp
  qed
qed

lemma collections_discovered:
  "collectionsLoop K fs ct cp (listFiles fs (DIRECTORY_APP_COMPONENTS K)) emptyRegistry = Inr r \<Longrightarrow>
   discovered r (discoveredNames K fs cp)"
  using collectionsLoop_discovered [OF discovered_empty] by (simp add: discoveredNames_def)

text \<open>
  Discovery gives the component of a directory the path of that directory.
\<close>

lemma populateLoop_paths:
  "populateLoop fs cp ct es r = Inr r' \<Longrightarrow> length (uiComponentsList r) = length ps \<Longrightarrow>
   (\<forall>a<length ps. path (objects r a) = ps ! a) \<Longrightarrow>
   length (uiComponentsList r') = length (ps @ map (\<lambda>e. cp @ ''/'' @ getName e) (filter isDirectory es))
   \<and> (\<forall>a<length (ps @ map (\<lambda>e. cp @ ''/'' @ getName e) (filter isDirectory es)).
         path (objects r' a) = (ps @ map (\<lambda>e. cp @ ''/'' @ getName e) (filter isDirectory es)) ! a)"
proof (induction es arbitrary: r ps)
  case Nil
  then show ?case by simp
next
  case (Cons e es)
  show ?case
  proof (cases "isDirectory e")
    case False
    with Cons.prems(1) have "populateLoop fs cp ct es r = Inr r'" by simp
    from Cons.IH [OF this Cons.prems(2,3)] False show ?thesis by simp
  next
    case True
    let ?n = "getName e"
    let ?s = "substr ?n (lastIndexOf ?n (CHR ''.'') + 1)"
    let ?p = "cp @ ''/'' @ ?n"
    let ?c = "new_UIComponent
                \<lparr>fullName := ?n, shortName := ?s, path := ?p, uiType := ct,
                 definitionDoc := JObj (require fs (?p @ ''/'' @ ?s @ ''.json'')),
                 templateFilePath :=
                   (if isFile fs (?p @ ''/'' @ ?s @ ''.hbs'') then Some (?p @ ''/'' @ ?s @ ''.hbs'') else None),
                 scriptFilePath :=
                   (if isFile fs (?p @ ''/'' @ ?s @ ''.js'') then Some (?p @ ''/'' @ ?s @ ''.js'') else None)\<rparr>"
    let ?r1 = "\<lparr>uiComponentsMap = (uiComponentsMap r)(getName e \<mapsto> length (uiComponentsList r)),
                uiComponentsList = uiComponentsList r @ [length (uiComponentsList r)],
                objects = (objects r)(length (uiComponentsList r) := ?c)\<rparr>"
    from Cons.prems(1) True have rest: "populateLoop fs cp ct es ?r1 = Inr r'"
      by (simp add: Let_def split: if_splits)
    have l1: "length (uiComponentsList ?r1) = length (ps @ [?p])"
      using Cons.prems(2) by simp
    have p1: "\<forall>a<length (ps @ [?p]). path (objects ?r1 a) = (ps @ [?p]) ! a"
      using Cons.prems(2,3) by (auto simp: nth_append less_Suc_eq)
    from Cons.IH [OF rest l1 p1] True show ?thesis by simp
  qed
qed

lemma collectionsLoop_paths:
  "collectionsLoop K fs ct cp cs r = Inr r' \<Longrightarrow> length (uiComponentsList r) = length ps \<Longrightarrow>
   (\<forall>a<length ps. path (objects r a) = ps ! a) \<Longrightarrow>
   (\<forall>a<length (ps @ concat (map (\<lambda>c. map (\<lambda>e. DIRECTORY_APP_COMPONENTS K @ ''/'' @ getName c @ cp
                                               @ ''/'' @ getName e)
                    (filter isDirectory
                       (listFiles fs (DIRECTORY_APP_COMPONENTS K @ ''/'' @ getName c @ cp))))
               (filter isDirectory cs))).
      path (objects r' a)
        = (ps @ concat (map (\<lambda>c. map (\<lambda>e. DIRECTORY_APP_COMPONENTS K @ ''/'' @ getName c @ cp
                                               @ ''/'' @ getName e)
                    (filter isDirectory
                       (listFiles fs (DIRECTORY_APP_COMPONENTS K @ ''/'' @ getName c @ cp))))
               (filter isDirectory cs))) ! a)"
proof (induction cs arbitrary: r ps)
  case Nil
  then show ?case by simp
next
  case (Cons c cs)
  show ?case
  proof (cases "isDirectory c")
    case False
    with Cons.prems(1) have "collectionsLoop K fs ct cp cs r = Inr r'" by simp
    from Cons.IH [OF this Cons.prems(2,3)] False show ?thesis by simp
  next
    case True
    let ?d = "DIRECTORY_APP_COMPONENTS K @ ''/'' @ getName c @ cp"
    from True Cons.prems(1) obtain r1 where
      r1: "populateLoop fs ?d ct (listFiles fs ?d) r = Inr r1"
      and rest: "collectionsLoop K fs ct cp cs r1 = Inr r'"
      by (auto simp: Let_def populateComponentCollections_def split: sum.splits)
    from populateLoop_paths [OF r1 Cons.prems(2,3)]
    have l1: "length (uiComponentsList r1)
                = length (ps @ map (\<lambda>e. ?d @ ''/'' @ getName e) (filter isDirectory (listFiles fs ?d)))"
      and p1: "\<forall>a<length (ps @ map (\<lambda>e. ?d @ ''/'' @ getName e) (filter isDirectory (listFiles fs ?d))).
                 path (objects r1 a)
                   = (ps @ map (\<lambda>e. ?d @ ''/'' @ getName e) (filter isDirectory (listFiles fs ?d))) ! a"
      by simp_all
    from Cons.IH [OF rest l1 p1] True show ?thesis by simp
  qed
qed

lemma collections_paths:
  assumes "collectionsLoop K fs ct cp (listFiles fs (DIRECTORY_APP_COMPONENTS K)) emptyRegistry = Inr r"
  shows "\<forall>a<length (discoveredPaths K fs cp). path (objects r a) = discoveredPaths K fs cp ! a"
  using collectionsLoop_paths [OF assms, of "[]"]
  by (simp add: discoveredPaths_def emptyRegistry_def)

lemma length_discoveredPaths:
  "length (discoveredPaths K fs cp) = length (discoveredNames K fs cp)"
  by (simp add: discoveredPaths_def discoveredNames_def length_concat comp_def)

lemma inheritanceLoop_fullName:
  assumes "inheritanceLoop K H m c pn h = Some y"
  shows "\<forall>h'. y = Inr h' \<longrightarrow> (\<forall>a. fullName (h' a) = fullName (h a) \<and> path (h' a) = path (h a))"
proof (rule inheritanceLoop.raw_induct
    [where P = "\<lambda>K H m c pn h y. \<forall>h'. y = Inr h' \<longrightarrow>
                  (\<forall>a. fullName (h' a) = fullName (h a) \<and> path (h' a) = path (h a))",
     OF _ assms])
  fix f :: "constants \<Rightarrow> host \<Rightarrow> (string \<rightharpoonup> addr) \<Rightarrow> addr \<Rightarrow> jsval \<Rightarrow> store \<Rightarrow> (error + store) option"
  fix K H m c pn h y
  assume IH: "\<And>K H m c pn h y. f K H m c pn h = Some y \<Longrightarrow>
                \<forall>h'. y = Inr h' \<longrightarrow> (\<forall>a. fullName (h' a) = fullName (h a) \<and> path (h' a) = path (h a))"
  assume body: "(if \<not> truthy pn then Some (Inr h)
      else case m (propertyKey H pn) of
          None \<Rightarrow>
            Some (Inl (MissingParentComponent (propertyKey H pn)
                    (if parents (h c) = [] then fullName (h c)
                     else fullName (h (last (parents (h c)))))))
        | Some parentComponent \<Rightarrow>
            let h1 = h(parentComponent :=
                       (h parentComponent)\<lparr>children := children (h parentComponent) @ [c]\<rparr>);
                h2 = h1(c := (h1 c)\<lparr>parents := parents (h1 c) @ [parentComponent]\<rparr>);
                h3 = h2(c := (h2 c)\<lparr>definitionDoc :=
                          extend (definitionDoc (h2 c)) (definitionDoc (h2 parentComponent))\<rparr>)
            in f K H m c (getProp (definitionDoc (h3 parentComponent)) (UI_COMPONENT_DEFINITION_EXTENDS K)) h3)
      = Some y"
  show "\<forall>h'. y = Inr h' \<longrightarrow> (\<forall>a. fullName (h' a) = fullName (h a) \<and> path (h' a) = path (h a))"
  proof (cases "truthy pn")
    case False
    with body show ?thesis by auto
  next
    case True
    show ?thesis
    proof (cases "m (propertyKey H pn)")
      case None
      with body True show ?thesis by auto
    next
      case (Some p)
      with body True obtain pn' h3 where
        call: "f K H m c pn' h3 = Some y" and h3: "\<And>a. fullName (h3 a) = fullName (h a)"
        and p3: "\<And>a. path (h3 a) = path (h a)"
        by (auto simp: Let_def)
      from IH [OF call] h3 p3 show ?thesis by simp
    qed
  qed
qed

lemma chainingLoop_fullName:
  "chainingLoop K H m cs h = Some (Inr h') \<Longrightarrow> fullName (h' a) = fullName (h a)"
proof (induction cs arbitrary: h)
  case Nil
  then show ?case by simp
next
  case (Cons c cs)
  from Cons.prems obtain h1 where
    one: "inheritanceLoop K H m c (getProp (definitionDoc (h c)) (UI_COMPONENT_DEFINITION_EXTENDS K)) h
            = Some (Inr h1)"
    and rest: "chainingLoop K H m cs h1 = Some (Inr h')"
    by (auto split: option.splits sum.splits)
  from inheritanceLoop_fullName [OF one] Cons.IH [OF rest] show ?case by simp
qed


lemma chainingLoop_path:
  "chainingLoop K H m cs h = Some (Inr h') \<Longrightarrow> path (h' a) = path (h a)"
proof (induction cs arbitrary: h)
  case Nil
  then show ?case by simp
next
  case (Cons c cs)
  from Cons.prems obtain h1 where
    one: "inheritanceLoop K H m c (getProp (definitionDoc (h c)) (UI_COMPONENT_DEFINITION_EXTENDS K)) h
            = Some (Inr h1)"
    and rest: "chainingLoop K H m cs h1 = Some (Inr h')"
    by (auto split: option.splits sum.splits)
  from inheritanceLoop_fullName [OF one] Cons.IH [OF rest] show ?case by simp
qed


text \<open>
  The inheritance loop records a child and a parent together, so it keeps the store
  linked.
\<close>

lemma inheritanceLoop_linked:
  assumes "inheritanceLoop K H m c pn h = Some y"
  shows "linked h \<longrightarrow> (\<forall>h'. y = Inr h' \<longrightarrow> linked h')"
proof (rule inheritanceLoop.raw_induct
    [where P = "\<lambda>K H m c pn h y. linked h \<longrightarrow> (\<forall>h'. y = Inr h' \<longrightarrow> linked h')",
     OF _ assms])
  fix f :: "constants \<Rightarrow> host \<Rightarrow> (string \<rightharpoonup> addr) \<Rightarrow> addr \<Rightarrow> jsval \<Rightarrow> store \<Rightarrow> (error + store) option"
  fix K H m c pn h y
  assume IH: "\<And>K H m c pn h y. f K H m c pn h = Some y \<Longrightarrow>
                linked h \<longrightarrow> (\<forall>h'. y = Inr h' \<longrightarrow> linked h')"
  assume body: "(if \<not> truthy pn then Some (Inr h)
      else case m (propertyKey H pn) of
          None \<Rightarrow>
            Some (Inl (MissingParentComponent (propertyKey H pn)
                    (if parents (h c) = [] then fullName (h c)
                     else fullName (h (last (parents (h c)))))))
        | Some parentComponent \<Rightarrow>
            let h1 = h(parentComponent :=
                       (h parentComponent)\<lparr>children := children (h parentComponent) @ [c]\<rparr>);
                h2 = h1(c := (h1 c)\<lparr>parents := parents (h1 c) @ [parentComponent]\<rparr>);
                h3 = h2(c := (h2 c)\<lparr>definitionDoc :=
                          extend (definitionDoc (h2 c)) (definitionDoc (h2 parentComponent))\<rparr>)
            in f K H m c (getProp (definitionDoc (h3 parentComponent)) (UI_COMPONENT_DEFINITION_EXTENDS K)) h3)
      = Some y"
  show "linked h \<longrightarrow> (\<forall>h'. y = Inr h' \<longrightarrow> linked h')"
  proof (cases "truthy pn")
    case False
    with body show ?thesis by auto
  next
    case True
    show ?thesis
    proof (cases "m (propertyKey H pn)")
      case None
      with body True show ?thesis by auto
    next
      case (Some p)
      with body True obtain pn' h3 where
        call: "f K H m c pn' h3 = Some y"
        and ch: "\<And>a. children (h3 a) = (if a = p then children (h a) @ [c] else children (h a))"
        and pa: "\<And>a. parents (h3 a) = (if a = c then parents (h a) @ [p] else parents (h a))"
        by (auto simp: Let_def)
      have "linked h \<Longrightarrow> linked h3"
        unfolding linked_def ch pa by (auto split: if_splits)
      with IH [OF call] show ?thesis by blast
    qed
  qed
qed

lemma chainingLoop_linked:
  "chainingLoop K H m cs h = Some (Inr h') \<Longrightarrow> linked h \<Longrightarrow> linked h'"
proof (induction cs arbitrary: h)
  case Nil
  then show ?case by simp
next
  case (Cons c cs)
  from Cons.prems(1) obtain h1 where
    one: "inheritanceLoop K H m c (getProp (definitionDoc (h c)) (UI_COMPONENT_DEFINITION_EXTENDS K)) h
            = Some (Inr h1)"
    and rest: "chainingLoop K H m cs h1 = Some (Inr h')"
    by (auto split: option.splits sum.splits)
  from inheritanceLoop_linked [OF one] Cons.prems(2) have "linked h1" by simp
  from Cons.IH [OF rest this] show ?case .
qed

lemma getUiComponentsData_ok:
  assumes "getUiComponentsData K H fs ct cp = Some (Inr dd)"
  obtains r where
    "collectionsLoop K fs ct cp (listFiles fs (DIRECTORY_APP_COMPONENTS K)) emptyRegistry = Inr r"
    "chainingLoop K H (uiComponentsMap r) (uiComponentsList r) (objects r) = Some (Inr (cobjects dd))"
    "cmap dd = uiComponentsMap r"
    "array dd = sortArray (\<lambda>a b. compareRawUiComponents K H (cobjects dd a) (cobjects dd b))
                  (uiComponentsList r)"
  using assms unfolding getUiComponentsData_def
  by (auto split: sum.splits option.splits)

lemma components_facts:
  assumes "getUiComponentsData K H fs ct cp = Some (Inr dd)"
  shows "array dd = sortArray (\<lambda>a b. compareRawUiComponents K H (cobjects dd a) (cobjects dd b))
                      [0..<length (discoveredNames K fs cp)]"
    and "map (\<lambda>a. fullName (cobjects dd a)) [0..<length (discoveredNames K fs cp)] = discoveredNames K fs cp"
    and "\<And>n a. cmap dd n = Some a \<Longrightarrow> a < length (discoveredNames K fs cp) \<and> discoveredNames K fs cp ! a = n"
    and "dom (cmap dd) = set (discoveredNames K fs cp)"
    and "\<And>n a. cmap dd n = Some a \<longleftrightarrow> isLastOfName (discoveredNames K fs cp) n a"
    and "linked (cobjects dd)"
    and "\<forall>a<length (discoveredNames K fs cp). path (cobjects dd a) = discoveredPaths K fs cp ! a"
proof -
  from assms obtain r where
    coll: "collectionsLoop K fs ct cp (listFiles fs (DIRECTORY_APP_COMPONENTS K)) emptyRegistry = Inr r"
    and chain: "chainingLoop K H (uiComponentsMap r) (uiComponentsList r) (objects r) = Some (Inr (cobjects dd))"
    and cm: "cmap dd = uiComponentsMap r"
    and arr: "array dd = sortArray (\<lambda>a b. compareRawUiComponents K H (cobjects dd a) (cobjects dd b))
                  (uiComponentsList r)"
    by (rule getUiComponentsData_ok)
  from collections_discovered [OF coll] have d: "discovered r (discoveredNames K fs cp)" .
  from d arr show "array dd = sortArray (\<lambda>a b. compareRawUiComponents K H (cobjects dd a) (cobjects dd b))
                      [0..<length (discoveredNames K fs cp)]"
    by (simp add: discovered_def)
  from d chainingLoop_fullName [OF chain]
  show "map (\<lambda>a. fullName (cobjects dd a)) [0..<length (discoveredNames K fs cp)] = discoveredNames K fs cp"
    by (simp add: discovered_def)
  from d cm show "\<And>n a. cmap dd n = Some a \<Longrightarrow> a < length (discoveredNames K fs cp) \<and> discoveredNames K fs cp ! a = n"
    by (simp add: discovered_def)
  from d cm show "dom (cmap dd) = set (discoveredNames K fs cp)"
    by (simp add: discovered_def)
  from d cm show "\<And>n a. cmap dd n = Some a \<longleftrightarrow> isLastOfName (discoveredNames K fs cp) n a"
    by (simp add: discovered_def)
  from d have "linked (objects r)" by (simp add: discovered_def linked_def)
  from chainingLoop_linked [OF chain this] show "linked (cobjects dd)" .
  from collections_paths [OF coll] chainingLoop_path [OF chain]
  show "\<forall>a<length (discoveredNames K fs cp). path (cobjects dd a) = discoveredPaths K fs cp ! a"
    by (simp add: length_discoveredPaths)
qed

lemma array_facts:
  assumes "getUiComponentsData K H fs ct cp = Some (Inr dd)"
  shows "distinct (array dd)" and "set (array dd) = {0..<length (discoveredNames K fs cp)}"
    and "length (array dd) = length (discoveredNames K fs cp)"
  using components_facts(1) [OF assms]
  by (simp_all add: distinct_sortArray set_sortArray length_sortArray)

lemma array_names:
  assumes "getUiComponentsData K H fs ct cp = Some (Inr dd)"
  shows "mset (map (\<lambda>a. fullName (cobjects dd a)) (array dd)) = mset (discoveredNames K fs cp)"
proof -
  let ?names = "discoveredNames K fs cp"
  let ?f = "\<lambda>a. fullName (cobjects dd a)"
  note f = components_facts [OF assms]
  have "mset (array dd) = mset [0..<length ?names]"
    unfolding f(1) by (rule mset_sortArray)
  then have "image_mset ?f (mset (array dd)) = image_mset ?f (mset [0..<length ?names])" by simp
  then show ?thesis using f(2) by (metis mset_map)
qed

lemma cmap_fullName:
  assumes "getUiComponentsData K H fs ct cp = Some (Inr dd)" and "cmap dd n = Some a"
  shows "fullName (cobjects dd a) = n"
proof -
  let ?names = "discoveredNames K fs cp"
  let ?f = "\<lambda>a. fullName (cobjects dd a)"
  note f = components_facts [OF assms(1)]
  from f(3) [OF assms(2)] have "a < length ?names" "?names ! a = n" by simp_all
  moreover from this(1) have "map ?f [0..<length ?names] ! a = ?f a" by simp
  ultimately show ?thesis using f(2) by simp
qed

text \<open>
  Claim C4, amended. Discovery of one component type gives the list one entry for each
  component directory it visits, collection after collection, and the map one entry for
  each full name: a full name is never twice in the map, and the full names of the list
  are the names of the directories visited, so they are distinct exactly when no two
  collections hold a directory of the same name.
\<close>

theorem discovery_names:
  assumes "getUiComponentsData K H fs ct cp = Some (Inr dd)"
  shows "mset (map (\<lambda>a. fullName (cobjects dd a)) (array dd)) = mset (discoveredNames K fs cp)
       \<and> (distinct (map (\<lambda>a. fullName (cobjects dd a)) (array dd)) \<longleftrightarrow> distinct (discoveredNames K fs cp))
       \<and> (\<forall>n a. cmap dd n = Some a \<longrightarrow> fullName (cobjects dd a) = n)
       \<and> dom (cmap dd) = set (discoveredNames K fs cp)"
  using array_names [OF assms] mset_eq_imp_distinct_iff [OF array_names [OF assms]]
    cmap_fullName [OF assms] components_facts(4) [OF assms]
  by blast

theorem discovery_names_witness:
  "getUiComponentsData K0 H0 fsSite ''div'' (DIRECTORY_APP_DIVS K0) = Some (Inr divsSite)
   \<and> mset (map (\<lambda>a. fullName (cobjects divsSite a)) (array divsSite)) = mset [''a.first'', ''b.second'']
   \<and> distinct (map (\<lambda>a. fullName (cobjects divsSite a)) (array divsSite))
   \<and> cmap divsSite ''b.second'' = Some 1
   \<and> fullName (cobjects divsSite 1) = ''b.second''
   \<and> dom (cmap divsSite) = {''a.first'', ''b.second''}"
proof -
  have n: "discoveredNames K0 fsSite (DIRECTORY_APP_DIVS K0) = [''a.first'', ''b.second'']"
    by code_simp
  have c: "cmap divsSite ''b.second'' = Some 1" by code_simp
  from discovery_names [OF divsSite_eq] have
    "mset (map (\<lambda>a. fullName (cobjects divsSite a)) (array divsSite)) = mset [''a.first'', ''b.second'']"
    "distinct (map (\<lambda>a. fullName (cobjects divsSite a)) (array divsSite))"
    "fullName (cobjects divsSite 1) = ''b.second''"
    "dom (cmap divsSite) = {''a.first'', ''b.second''}"
    using c unfolding n by auto
  with divsSite_eq c show ?thesis by simp
qed

text \<open>
  The claim as stated fails on two collections that each hold a div directory
  \<open>a.same\<close>: the list of the divs has two entries of that full name.
\<close>

theorem duplicate_fullName_in_list:
  "getUiComponentsData K0 H0 fsTwoCollections ''div'' (DIRECTORY_APP_DIVS K0)
     = Some (Inr divsTwoCollections)
   \<and> array divsTwoCollections = [0, 1]
   \<and> fullName (cobjects divsTwoCollections 0) = ''a.same''
   \<and> fullName (cobjects divsTwoCollections 1) = ''a.same''
   \<and> path (cobjects divsTwoCollections 0) = ''/app/components/c1/divs/a.same''
   \<and> path (cobjects divsTwoCollections 1) = ''/app/components/c2/divs/a.same''"
proof -
  have "array divsTwoCollections = [0, 1]" by code_simp
  moreover have "fullName (cobjects divsTwoCollections 0) = ''a.same''" by code_simp
  moreover have "fullName (cobjects divsTwoCollections 1) = ''a.same''" by code_simp
  moreover have "path (cobjects divsTwoCollections 0) = ''/app/components/c1/divs/a.same''"
    by code_simp
  moreover have "path (cobjects divsTwoCollections 1) = ''/app/components/c2/divs/a.same''"
    by code_simp
  ultimately show ?thesis using divsTwoCollections_eq by simp
qed

section \<open>The two passes of the build\<close>

lemma flagged_simps [simp]:
  "fullName (flagged c i dis) = fullName c" "children (flagged c i dis) = children c"
  "parents (flagged c i dis) = parents c" "definitionDoc (flagged c i dis) = definitionDoc c"
  "path (flagged c i dis) = path c"
  "index (flagged c i dis) = Some i" "disabled (flagged c i dis) = Some dis"
  by (simp_all add: flagged_def)

lemma validateDiv_flagged [simp]: "validateDivDefinition K (flagged c i dis) = validateDivDefinition K c"
  by (simp add: validateDivDefinition_def)

lemma validatePage_flagged [simp]: "validatePageDefinition K H (flagged c i dis) l = validatePageDefinition K H c l"
  by (simp add: validatePageDefinition_def)

lemma isEnabled_flagged [simp]: "isEnabled K (flagged c i dis) = isEnabled K c"
  by (simp add: isEnabled_def)

lemma isFinal_flagged [simp]: "isFinal (flagged c i dis) = isFinal c"
  by (simp add: isFinal_def)

lemma divsLoop_Cons:
  "divsLoop K H (d # rest) i h al pushed =
     (let c = h d; h2 = h(d := flagged c i (\<not> isEnabled K c))
      in if \<not> isEnabled K c then divsLoop K H rest (Suc i) h2 al pushed
         else if \<not> isFinal c then divsLoop K H rest (Suc i) h2 (al(fullName c \<mapsto> DivRef d)) pushed
         else (case validateDivDefinition K c of
                 Invalid r \<Rightarrow> Inl (InvalidDefinition (fullName c) r)
               | Valid \<Rightarrow> divsLoop K H rest (Suc i) h2 (al(fullName c \<mapsto> DivRef d)) (divPushes K H c pushed)))"
  by (simp add: Let_def isEnabled_def isFinal_def flagged_def divPushes_def validateDivDefinition_def
           cong: jsval.case_cong)

lemma pagesLoop_Cons:
  "pagesLoop K H ld i (p # rest) j h al um =
     (let c = h p; h2 = h(p := flagged c (i + j) (\<not> isEnabled K c));
          pageUri = propertyKey H (getProp (definitionDoc c) (PAGE_DEFINITION_URI K))
      in if \<not> isEnabled K c then pagesLoop K H ld i rest (Suc j) h2 al um
         else if \<not> isFinal c then pagesLoop K H ld i rest (Suc j) h2 (al(fullName c \<mapsto> PageRef p)) um
         else (case validatePageDefinition K H c ld of
                 Invalid r \<Rightarrow> Inl (InvalidDefinition (fullName c) r)
               | Valid \<Rightarrow>
                   if (case um pageUri of Some registered \<Rightarrow> registered \<noteq> [] | None \<Rightarrow> False)
                   then Inl (PageUriCollision (fullName c) pageUri (the (um pageUri)))
                   else pagesLoop K H ld i rest (Suc j) h2 (al(fullName c \<mapsto> PageRef p))
                          (um(pageUri \<mapsto> fullName c))))"
  by (simp add: Let_def isEnabled_def isFinal_def flagged_def validatePageDefinition_def
           split: option.splits validationData.splits)


lemma upd_flagged [simp]:
  "fullName ((h(d := flagged (h d) i b)) a) = fullName (h a)"
  "children ((h(d := flagged (h d) i b)) a) = children (h a)"
  "parents ((h(d := flagged (h d) i b)) a) = parents (h a)"
  "definitionDoc ((h(d := flagged (h d) i b)) a) = definitionDoc (h a)"
  "path ((h(d := flagged (h d) i b)) a) = path (h a)"
  "isEnabled K ((h(d := flagged (h d) i b)) a) = isEnabled K (h a)"
  "isFinal ((h(d := flagged (h d) i b)) a) = isFinal (h a)"
  "validateDivDefinition K ((h(d := flagged (h d) i b)) a) = validateDivDefinition K (h a)"
  "validatePageDefinition K H ((h(d := flagged (h d) i b)) a) l = validatePageDefinition K H (h a) l"
  by (simp_all add: fun_upd_def)

declare divsLoop.simps(2) [simp del] pagesLoop.simps(2) [simp del]

lemma divsLoop_same:
  "divsLoop K H ds i h al pushed = Inr (h', al', pushed') \<Longrightarrow>
   fullName (h' a) = fullName (h a) \<and> children (h' a) = children (h a)
   \<and> parents (h' a) = parents (h a) \<and> definitionDoc (h' a) = definitionDoc (h a)
   \<and> path (h' a) = path (h a)"
proof (induction ds arbitrary: i h al pushed)
  case Nil
  then show ?case by simp
next
  case (Cons d ds)
  from Cons.prems show ?case
    unfolding divsLoop_Cons Let_def
    by (auto split: if_splits validationData.splits dest!: Cons.IH)
qed

lemma divsLoop_outside:
  "divsLoop K H ds i h al pushed = Inr (h', al', pushed') \<Longrightarrow> a \<notin> set ds \<Longrightarrow> h' a = h a"
proof (induction ds arbitrary: i h al pushed)
  case Nil
  then show ?case by simp
next
  case (Cons d ds)
  from Cons.prems show ?case
    unfolding divsLoop_Cons Let_def
    by (auto split: if_splits validationData.splits dest!: Cons.IH)
qed

lemma divsLoop_flags:
  "divsLoop K H ds i h al pushed = Inr (h', al', pushed') \<Longrightarrow> distinct ds \<Longrightarrow> k < length ds \<Longrightarrow>
   index (h' (ds ! k)) = Some (i + k) \<and> disabled (h' (ds ! k)) = Some (\<not> isEnabled K (h (ds ! k)))"
proof (induction ds arbitrary: i h al pushed k)
  case Nil
  then show ?case by simp
next
  case (Cons d ds)
  let ?h2 = "h(d := flagged (h d) i (\<not> isEnabled K (h d)))"
  from Cons.prems(1) obtain al2 pushed2 where
    rest: "divsLoop K H ds (Suc i) ?h2 al2 pushed2 = Inr (h', al', pushed')"
    unfolding divsLoop_Cons Let_def by (auto split: if_splits validationData.splits)
  from Cons.prems(2) have d: "d \<notin> set ds" and dist: "distinct ds" by simp_all
  show ?case
  proof (cases k)
    case 0
    from divsLoop_outside [OF rest d] show ?thesis by (simp add: 0)
  next
    case (Suc k')
    with Cons.prems(3) have k': "k' < length ds" by simp
    from Cons.IH [OF rest dist k'] show ?thesis by (simp add: Suc)
  qed
qed

lemma divsLoop_all:
  "divsLoop K H ds i h al pushed = Inr (h', al', pushed') \<Longrightarrow> al' n = Some r \<Longrightarrow>
   al n = Some r \<or> (\<exists>a\<in>set ds. r = DivRef a \<and> fullName (h a) = n \<and> isEnabled K (h a))"
proof (induction ds arbitrary: i h al pushed)
  case Nil
  then show ?case by simp
next
  case (Cons d ds)
  from Cons.prems show ?case
    unfolding divsLoop_Cons Let_def
    by (auto split: if_splits validationData.splits dest!: Cons.IH)
qed


lemma pagesLoop_step:
  assumes "pagesLoop K H ld i (p # ps) j h al um = Inr (h', al', um')"
  obtains al2 um2 where
    "pagesLoop K H ld i ps (Suc j) (h(p := flagged (h p) (i + j) (\<not> isEnabled K (h p)))) al2 um2
       = Inr (h', al', um')"
    "al2 = al \<or> (al2 = al(fullName (h p) \<mapsto> PageRef p) \<and> isEnabled K (h p))"
    "um2 = um \<or> (um2 = um(propertyKey H (getProp (definitionDoc (h p)) (PAGE_DEFINITION_URI K))
                            \<mapsto> fullName (h p))
                  \<and> isFinal (h p) \<and> isEnabled K (h p))"
  using assms unfolding pagesLoop_Cons Let_def
  by (auto split: if_splits validationData.splits)

lemma pagesLoop_same:
  "pagesLoop K H ld i ps j h al um = Inr (h', al', um') \<Longrightarrow>
   fullName (h' a) = fullName (h a) \<and> children (h' a) = children (h a)
   \<and> parents (h' a) = parents (h a) \<and> definitionDoc (h' a) = definitionDoc (h a)
   \<and> path (h' a) = path (h a)"
proof (induction ps arbitrary: j h al um)
  case Nil
  then show ?case by simp
next
  case (Cons p ps)
  from Cons.prems obtain al2 um2 where
    "pagesLoop K H ld i ps (Suc j) (h(p := flagged (h p) (i + j) (\<not> isEnabled K (h p)))) al2 um2
       = Inr (h', al', um')"
    by (rule pagesLoop_step)
  from Cons.IH [OF this, unfolded upd_flagged] show ?case .
qed

lemma pagesLoop_outside:
  "pagesLoop K H ld i ps j h al um = Inr (h', al', um') \<Longrightarrow> a \<notin> set ps \<Longrightarrow> h' a = h a"
proof (induction ps arbitrary: j h al um)
  case Nil
  then show ?case by simp
next
  case (Cons p ps)
  from Cons.prems(1) obtain al2 um2 where
    "pagesLoop K H ld i ps (Suc j) (h(p := flagged (h p) (i + j) (\<not> isEnabled K (h p)))) al2 um2
       = Inr (h', al', um')"
    by (rule pagesLoop_step)
  from Cons.IH [OF this] Cons.prems(2) show ?case by simp
qed

lemma pagesLoop_flags:
  "pagesLoop K H ld i ps j h al um = Inr (h', al', um') \<Longrightarrow> distinct ps \<Longrightarrow> k < length ps \<Longrightarrow>
   index (h' (ps ! k)) = Some (i + (j + k)) \<and> disabled (h' (ps ! k)) = Some (\<not> isEnabled K (h (ps ! k)))"
proof (induction ps arbitrary: j h al um k)
  case Nil
  then show ?case by simp
next
  case (Cons p ps)
  let ?h2 = "h(p := flagged (h p) (i + j) (\<not> isEnabled K (h p)))"
  from Cons.prems(1) obtain al2 um2 where
    rest: "pagesLoop K H ld i ps (Suc j) ?h2 al2 um2 = Inr (h', al', um')"
    by (rule pagesLoop_step)
  from Cons.prems(2) have p: "p \<notin> set ps" and dist: "distinct ps" by simp_all
  show ?case
  proof (cases k)
    case 0
    from pagesLoop_outside [OF rest p] show ?thesis by (simp add: 0)
  next
    case (Suc k')
    with Cons.prems(3) have k': "k' < length ps" by simp
    from Cons.IH [OF rest dist k'] show ?thesis by (simp add: Suc)
  qed
qed

lemma pagesLoop_all:
  "pagesLoop K H ld i ps j h al um = Inr (h', al', um') \<Longrightarrow> al' n = Some r \<Longrightarrow>
   al n = Some r \<or> (\<exists>a\<in>set ps. r = PageRef a \<and> fullName (h a) = n \<and> isEnabled K (h a))"
proof (induction ps arbitrary: j h al um)
  case Nil
  then show ?case by simp
next
  case (Cons p ps)
  let ?h2 = "h(p := flagged (h p) (i + j) (\<not> isEnabled K (h p)))"
  from Cons.prems(1) obtain al2 um2 where
    rest: "pagesLoop K H ld i ps (Suc j) ?h2 al2 um2 = Inr (h', al', um')"
    and a2: "al2 = al \<or> (al2 = al(fullName (h p) \<mapsto> PageRef p) \<and> isEnabled K (h p))"
    by (rule pagesLoop_step)
  from Cons.IH [OF rest Cons.prems(2), unfolded upd_flagged] a2
  show ?case by (auto split: if_splits)
qed

text \<open>
  The components a pass validates and registers do not depend on the index and the
  disabled flag that the pass writes.
\<close>

lemma candidates_Cons:
  "candidates K h (d # ds) =
     (if isEnabled K (h d) \<and> isFinal (h d) then d # candidates K h ds else candidates K h ds)"
  by (simp add: candidates_def)

lemma candidates_flagged:
  "candidates K (h(d := flagged (h d) i b)) ds = candidates K h ds"
  unfolding candidates_def upd_flagged ..

lemma divPushes_flagged:
  "divPushes K H ((h(d := flagged (h d) i b)) a) p = divPushes K H (h a) p"
  unfolding divPushes_def upd_flagged ..

lemma pageUriOf_flagged:
  "pageUriOf K H ((h(d := flagged (h d) i b)) a) = pageUriOf K H (h a)"
  unfolding pageUriOf_def upd_flagged ..

lemma divsLoop_exact:
  "divsLoop K H ds i h al pushed = Inr (h', al', pushed') \<Longrightarrow>
   pushed' = foldl (\<lambda>p a. divPushes K H (h a) p) pushed (candidates K h ds)
   \<and> (\<forall>a\<in>set (candidates K h ds). validateDivDefinition K (h a) = Valid)"
proof (induction ds arbitrary: i h al pushed)
  case Nil
  then show ?case by (simp add: candidates_def)
next
  case (Cons d ds)
  let ?h2 = "h(d := flagged (h d) i (\<not> isEnabled K (h d)))"
  from Cons.prems obtain al2 pushed2 where
    rest: "divsLoop K H ds (Suc i) ?h2 al2 pushed2 = Inr (h', al', pushed')"
    and p2: "if isEnabled K (h d) \<and> isFinal (h d)
             then pushed2 = divPushes K H (h d) pushed \<and> validateDivDefinition K (h d) = Valid
             else pushed2 = pushed"
    unfolding divsLoop_Cons Let_def by (auto split: if_splits validationData.splits)
  note IH = Cons.IH [OF rest, unfolded upd_flagged candidates_flagged divPushes_flagged]
  show ?case
  proof (cases "isEnabled K (h d) \<and> isFinal (h d)")
    case True
    with p2 IH show ?thesis by (simp add: candidates_Cons)
  next
    case False
    with p2 have "pushed2 = pushed" by (auto split: if_splits)
    moreover from False have "candidates K h (d # ds) = candidates K h ds"
      by (auto simp: candidates_Cons)
    ultimately show ?thesis using IH by simp
  qed
qed

lemma divsLoop_first_error:
  "divsLoop K H ds i h al pushed = Inl e \<Longrightarrow>
   \<exists>pre a post r. candidates K h ds = pre @ a # post
      \<and> (\<forall>b\<in>set pre. validateDivDefinition K (h b) = Valid)
      \<and> validateDivDefinition K (h a) = Invalid r
      \<and> e = InvalidDefinition (fullName (h a)) r"
proof (induction ds arbitrary: i h al pushed)
  case Nil
  then show ?case by simp
next
  case (Cons d ds)
  let ?h2 = "h(d := flagged (h d) i (\<not> isEnabled K (h d)))"
  show ?case
  proof (cases "isEnabled K (h d) \<and> isFinal (h d)")
    case False
    with Cons.prems obtain al2 where
      rest: "divsLoop K H ds (Suc i) ?h2 al2 pushed = Inl e"
      unfolding divsLoop_Cons Let_def by (auto split: if_splits)
    from False have "candidates K h (d # ds) = candidates K h ds"
      by (auto simp: candidates_Cons)
    then show ?thesis
      using Cons.IH [OF rest, unfolded upd_flagged candidates_flagged] by (simp only:)
  next
    case True
    show ?thesis
    proof (cases "validateDivDefinition K (h d)")
      case (Invalid r)
      with True Cons.prems have e: "e = InvalidDefinition (fullName (h d)) r"
        unfolding divsLoop_Cons Let_def by auto
      have "candidates K h (d # ds) = [] @ d # candidates K h ds"
        using True by (simp add: candidates_Cons)
      with Invalid e show ?thesis by (intro exI [of _ "[]"] exI [of _ d] exI) auto
    next
      case Valid
      with True Cons.prems obtain al2 where
        rest: "divsLoop K H ds (Suc i) ?h2 al2 (divPushes K H (h d) pushed) = Inl e"
        unfolding divsLoop_Cons Let_def by auto
      from Cons.IH [OF rest, unfolded upd_flagged candidates_flagged]
      obtain pre a post r where
        c: "candidates K h ds = pre @ a # post"
        and v: "\<forall>b\<in>set pre. validateDivDefinition K (h b) = Valid"
        and r: "validateDivDefinition K (h a) = Invalid r" "e = InvalidDefinition (fullName (h a)) r"
        by blast
      from c True have "candidates K h (d # ds) = (d # pre) @ a # post"
        by (simp add: candidates_Cons)
      moreover from v Valid have "\<forall>b\<in>set (d # pre). validateDivDefinition K (h b) = Valid" by simp
      ultimately show ?thesis using r by blast
    qed
  qed
qed

lemma pagesLoop_exact:
  "pagesLoop K H ld i ps j h al um = Inr (h', al', um') \<Longrightarrow>
   um' = foldl (\<lambda>m a. m(pageUriOf K H (h a) \<mapsto> fullName (h a))) um (candidates K h ps)
   \<and> (\<forall>a\<in>set (candidates K h ps). validatePageDefinition K H (h a) ld = Valid)"
proof (induction ps arbitrary: j h al um)
  case Nil
  then show ?case by (simp add: candidates_def)
next
  case (Cons p ps)
  let ?h2 = "h(p := flagged (h p) (i + j) (\<not> isEnabled K (h p)))"
  from Cons.prems obtain al2 um2 where
    rest: "pagesLoop K H ld i ps (Suc j) ?h2 al2 um2 = Inr (h', al', um')"
    and u2: "if isEnabled K (h p) \<and> isFinal (h p)
             then um2 = um(pageUriOf K H (h p) \<mapsto> fullName (h p))
                  \<and> validatePageDefinition K H (h p) ld = Valid
             else um2 = um"
    unfolding pagesLoop_Cons Let_def pageUriOf_def
    by (auto split: if_splits validationData.splits)
  note IH = Cons.IH [OF rest, unfolded upd_flagged candidates_flagged pageUriOf_flagged]
  show ?case
  proof (cases "isEnabled K (h p) \<and> isFinal (h p)")
    case True
    with u2 IH show ?thesis by (simp add: candidates_Cons)
  next
    case False
    with u2 have "um2 = um" by (auto split: if_splits)
    moreover from False have "candidates K h (p # ps) = candidates K h ps"
      by (auto simp: candidates_Cons)
    ultimately show ?thesis using IH by simp
  qed
qed

lemma pagesLoop_first_error:
  "pagesLoop K H ld i ps j h al um = Inl e \<Longrightarrow>
   \<exists>pre a post. candidates K h ps = pre @ a # post
      \<and> (\<forall>b\<in>set pre. validatePageDefinition K H (h b) ld = Valid)
      \<and> ((\<exists>r. validatePageDefinition K H (h a) ld = Invalid r
               \<and> e = InvalidDefinition (fullName (h a)) r)
         \<or> (validatePageDefinition K H (h a) ld = Valid
            \<and> (\<exists>registered.
                  foldl (\<lambda>m b. m(pageUriOf K H (h b) \<mapsto> fullName (h b))) um pre (pageUriOf K H (h a))
                    = Some registered
                  \<and> registered \<noteq> []
                  \<and> e = PageUriCollision (fullName (h a)) (pageUriOf K H (h a)) registered)))"
proof (induction ps arbitrary: j h al um)
  case Nil
  then show ?case by simp
next
  case (Cons p ps)
  let ?h2 = "h(p := flagged (h p) (i + j) (\<not> isEnabled K (h p)))"
  let ?reg = "\<lambda>m b. m(pageUriOf K H (h b) \<mapsto> fullName (h b))"
  show ?case
  proof (cases "isEnabled K (h p) \<and> isFinal (h p)")
    case False
    with Cons.prems obtain al2 where
      rest: "pagesLoop K H ld i ps (Suc j) ?h2 al2 um = Inl e"
      unfolding pagesLoop_Cons Let_def by (auto split: if_splits)
    from False have "candidates K h (p # ps) = candidates K h ps"
      by (auto simp: candidates_Cons)
    then show ?thesis
      using Cons.IH [OF rest, unfolded upd_flagged candidates_flagged pageUriOf_flagged]
      by (simp only:)
  next
    case True
    then have cand: "candidates K h (p # ps) = [] @ p # candidates K h ps"
      by (simp add: candidates_Cons)
    show ?thesis
    proof (cases "validatePageDefinition K H (h p) ld")
      case (Invalid r)
      with True Cons.prems have e: "e = InvalidDefinition (fullName (h p)) r"
        unfolding pagesLoop_Cons Let_def by auto
      with Invalid cand show ?thesis
        by (intro exI [of _ "[]"] exI [of _ p] exI [of _ "candidates K h ps"]) auto
    next
      case Valid
      show ?thesis
      proof (cases "case um (pageUriOf K H (h p)) of Some registered \<Rightarrow> registered \<noteq> [] | None \<Rightarrow> False")
        case collide: True
        then obtain registered where
          reg: "um (pageUriOf K H (h p)) = Some registered" "registered \<noteq> []"
          by (auto split: option.splits)
        with True Valid Cons.prems
        have e: "e = PageUriCollision (fullName (h p)) (pageUriOf K H (h p)) registered"
          unfolding pagesLoop_Cons Let_def pageUriOf_def by auto
        with Valid cand reg show ?thesis
          by (intro exI [of _ "[]"] exI [of _ p] exI [of _ "candidates K h ps"]) auto
      next
        case free: False
        with True Valid Cons.prems obtain al2 where
          rest: "pagesLoop K H ld i ps (Suc j) ?h2 al2 (um(pageUriOf K H (h p) \<mapsto> fullName (h p))) = Inl e"
          unfolding pagesLoop_Cons Let_def pageUriOf_def by auto
        from Cons.IH [OF rest, unfolded upd_flagged candidates_flagged pageUriOf_flagged]
        obtain pre a post where
          c: "candidates K h ps = pre @ a # post"
          and v: "\<forall>b\<in>set pre. validatePageDefinition K H (h b) ld = Valid"
          and r: "(\<exists>r. validatePageDefinition K H (h a) ld = Invalid r
                      \<and> e = InvalidDefinition (fullName (h a)) r)
                  \<or> (validatePageDefinition K H (h a) ld = Valid
                     \<and> (\<exists>registered.
                           foldl ?reg (um(pageUriOf K H (h p) \<mapsto> fullName (h p))) pre (pageUriOf K H (h a))
                             = Some registered
                           \<and> registered \<noteq> []
                           \<and> e = PageUriCollision (fullName (h a)) (pageUriOf K H (h a)) registered))"
          by blast
        from c True have c': "candidates K h (p # ps) = (p # pre) @ a # post"
          by (simp add: candidates_Cons)
        from v Valid have v': "\<forall>b\<in>set (p # pre). validatePageDefinition K H (h b) ld = Valid"
          by simp
        have f: "foldl ?reg um (p # pre) = foldl ?reg (um(pageUriOf K H (h p) \<mapsto> fullName (h p))) pre"
          by simp
        from r have "(\<exists>r. validatePageDefinition K H (h a) ld = Invalid r
                      \<and> e = InvalidDefinition (fullName (h a)) r)
                  \<or> (validatePageDefinition K H (h a) ld = Valid
                     \<and> (\<exists>registered.
                           foldl ?reg um (p # pre) (pageUriOf K H (h a)) = Some registered
                           \<and> registered \<noteq> []
                           \<and> e = PageUriCollision (fullName (h a)) (pageUriOf K H (h a)) registered))"
          unfolding f .
        with c' v' show ?thesis by blast
      qed
    qed
  qed
qed

text \<open>
  Claim C7. In the two passes of the build, over the divs and over the pages, the
  components that are validated and registered are exactly the enabled ones that
  nothing extends (the \<open>candidates\<close> of the pass, in its order); a component that
  something extends, like a disabled one, is passed over.
  When the pass over the divs ends, \<open>pushedDivs\<close> is what the candidates have pushed,
  one after the other and address by address, and every candidate is valid; when it
  throws, the error is the one of the first candidate that is not valid. When the pass
  over the pages ends, \<open>uriPagesMap\<close> is what the candidates have registered, each
  under its own URI, and every candidate is valid; when it throws, the error comes from
  the first candidate that is not valid or whose URI the candidates before it have
  taken. No other component is validated, pushes a URI or registers one, whatever its
  definition and its full name are.
\<close>

theorem only_final_components_registered:
  "(divsLoop K H ds i h al pushed = Inr (h', al', pushed')
      \<longrightarrow> pushed' = foldl (\<lambda>p a. divPushes K H (h a) p) pushed (candidates K h ds)
          \<and> (\<forall>a\<in>set (candidates K h ds). validateDivDefinition K (h a) = Valid))
   \<and> (pagesLoop K H ld n ps j g bl um = Inr (g', bl', um')
      \<longrightarrow> um' = foldl (\<lambda>m a. m(pageUriOf K H (g a) \<mapsto> fullName (g a))) um (candidates K g ps)
          \<and> (\<forall>a\<in>set (candidates K g ps). validatePageDefinition K H (g a) ld = Valid))
   \<and> (divsLoop K H ds i h al pushed = Inl e
      \<longrightarrow> (\<exists>pre a post r. candidates K h ds = pre @ a # post
             \<and> (\<forall>b\<in>set pre. validateDivDefinition K (h b) = Valid)
             \<and> validateDivDefinition K (h a) = Invalid r
             \<and> e = InvalidDefinition (fullName (h a)) r))
   \<and> (pagesLoop K H ld n ps j g bl um = Inl e'
      \<longrightarrow> (\<exists>pre a post. candidates K g ps = pre @ a # post
             \<and> (\<forall>b\<in>set pre. validatePageDefinition K H (g b) ld = Valid)
             \<and> ((\<exists>r. validatePageDefinition K H (g a) ld = Invalid r
                      \<and> e' = InvalidDefinition (fullName (g a)) r)
                \<or> (validatePageDefinition K H (g a) ld = Valid
                   \<and> (\<exists>registered.
                         foldl (\<lambda>m b. m(pageUriOf K H (g b) \<mapsto> fullName (g b))) um pre
                             (pageUriOf K H (g a)) = Some registered
                         \<and> registered \<noteq> []
                         \<and> e' = PageUriCollision (fullName (g a)) (pageUriOf K H (g a)) registered)))))
   \<and> candidates K h ds = filter (\<lambda>a. isEnabled K (h a) \<and> children (h a) = []) ds"
proof (intro conjI impI)
  assume a: "divsLoop K H ds i h al pushed = Inr (h', al', pushed')"
  from divsLoop_exact [OF a]
  show "pushed' = foldl (\<lambda>p a. divPushes K H (h a) p) pushed (candidates K h ds)"
    and "\<forall>a\<in>set (candidates K h ds). validateDivDefinition K (h a) = Valid"
    by simp_all
next
  assume a: "pagesLoop K H ld n ps j g bl um = Inr (g', bl', um')"
  from pagesLoop_exact [OF a]
  show "um' = foldl (\<lambda>m a. m(pageUriOf K H (g a) \<mapsto> fullName (g a))) um (candidates K g ps)"
    and "\<forall>a\<in>set (candidates K g ps). validatePageDefinition K H (g a) ld = Valid"
    by simp_all
next
  assume "divsLoop K H ds i h al pushed = Inl e"
  from divsLoop_first_error [OF this]
  show "\<exists>pre a post r. candidates K h ds = pre @ a # post
          \<and> (\<forall>b\<in>set pre. validateDivDefinition K (h b) = Valid)
          \<and> validateDivDefinition K (h a) = Invalid r
          \<and> e = InvalidDefinition (fullName (h a)) r" .
next
  assume "pagesLoop K H ld n ps j g bl um = Inl e'"
  from pagesLoop_first_error [OF this]
  show "\<exists>pre a post. candidates K g ps = pre @ a # post
          \<and> (\<forall>b\<in>set pre. validatePageDefinition K H (g b) ld = Valid)
          \<and> ((\<exists>r. validatePageDefinition K H (g a) ld = Invalid r
                   \<and> e' = InvalidDefinition (fullName (g a)) r)
             \<or> (validatePageDefinition K H (g a) ld = Valid
                \<and> (\<exists>registered.
                      foldl (\<lambda>m b. m(pageUriOf K H (g b) \<mapsto> fullName (g b))) um pre
                          (pageUriOf K H (g a)) = Some registered
                      \<and> registered \<noteq> []
                      \<and> e' = PageUriCollision (fullName (g a)) (pageUriOf K H (g a)) registered)))" .
next
  show "candidates K h ds = filter (\<lambda>a. isEnabled K (h a) \<and> children (h a) = []) ds"
    by (simp add: candidates_def isFinal_def)
qed


theorem only_final_components_registered_witness:
  "candidates K0 (cobjects divsShadow) (array divsShadow) = [0, 2]
   \<and> isEnabled K0 (cobjects divsShadow 1) \<and> children (cobjects divsShadow 1) = [2]
   \<and> fullName (cobjects divsShadow 0) = ''a.same'' \<and> fullName (cobjects divsShadow 1) = ''a.same''
   \<and> (\<exists>h' al'. divsLoop K0 H0 (array divsShadow) 0 (cobjects divsShadow) Map.empty Map.empty
          = Inr (h', al', foldl (\<lambda>p a. divPushes K0 H0 (cobjects divsShadow a) p) Map.empty [0, 2]))
   \<and> foldl (\<lambda>p a. divPushes K0 H0 (cobjects divsShadow a) p) Map.empty [0, 2] ''/x'' = Some [''a.same'']
   \<and> validateDivDefinition K0 (cobjects divsShadow 0) = Valid
   \<and> validateDivDefinition K0 (cobjects divsShadow 1) = Invalid NoVersion
   \<and> validateDivDefinition K0 (cobjects divsShadow 2) = Valid
   \<and> candidates K0 (cobjects pagesFamily) (array pagesFamily) = [1]
   \<and> children (cobjects pagesFamily 0) = [1]
   \<and> (\<exists>g' bl'. pagesLoop K0 H0 (getLayoutsData fsPages (DIRECTORY_APP_LAYOUTS K0)) 0 (array pagesFamily) 0
          (cobjects pagesFamily) Map.empty Map.empty
          = Inr (g', bl', Map.empty(pageUriOf K0 H0 (cobjects pagesFamily 1)
                                      \<mapsto> fullName (cobjects pagesFamily 1))))
   \<and> pageUriOf K0 H0 (cobjects pagesFamily 1) = ''/home''
   \<and> fullName (cobjects pagesFamily 1) = ''p.derived''
   \<and> validatePageDefinition K0 H0 (cobjects pagesFamily 1)
        (getLayoutsData fsPages (DIRECTORY_APP_LAYOUTS K0)) = Valid
   \<and> divsLoop K0 H0 (array divsInvalid) 0 (cobjects divsInvalid) Map.empty Map.empty
        = Inl (InvalidDefinition ''a.bad'' NoVersion)
   \<and> (\<exists>pre a post. candidates K0 (cobjects divsInvalid) (array divsInvalid) = pre @ a # post
          \<and> validateDivDefinition K0 (cobjects divsInvalid a) = Invalid NoVersion
          \<and> fullName (cobjects divsInvalid a) = ''a.bad'')
   \<and> pagesLoop K0 H0 (getLayoutsData fsCollision (DIRECTORY_APP_LAYOUTS K0)) 0 (array pagesCollision) 0
        (cobjects pagesCollision) Map.empty Map.empty
        = Inl (PageUriCollision ''p.two'' ''/home'' ''p.one'')
   \<and> (\<exists>pre a post. candidates K0 (cobjects pagesCollision) (array pagesCollision) = pre @ a # post
          \<and> fullName (cobjects pagesCollision a) = ''p.two''
          \<and> pageUriOf K0 H0 (cobjects pagesCollision a) = ''/home''
          \<and> foldl (\<lambda>m b. m(pageUriOf K0 H0 (cobjects pagesCollision b)
                                \<mapsto> fullName (cobjects pagesCollision b))) Map.empty pre ''/home''
               = Some ''p.one'')"
proof -
  note c1 = only_final_components_registered [THEN conjunct1, rule_format]
  note c2 = only_final_components_registered [THEN conjunct2, THEN conjunct1, rule_format]
  note c3 = only_final_components_registered
    [THEN conjunct2, THEN conjunct2, THEN conjunct1, rule_format]
  note c4 = only_final_components_registered
    [THEN conjunct2, THEN conjunct2, THEN conjunct2, THEN conjunct1, rule_format]
  have k1: "candidates K0 (cobjects divsShadow) (array divsShadow) = [0, 2]" by code_simp
  have o1: "isEnabled K0 (cobjects divsShadow 1)" by code_simp
  have o2: "children (cobjects divsShadow 1) = [2]" by code_simp
  have o3: "fullName (cobjects divsShadow 0) = ''a.same''" by code_simp
  have o4: "fullName (cobjects divsShadow 1) = ''a.same''" by code_simp
  have o6: "validateDivDefinition K0 (cobjects divsShadow 1) = Invalid NoVersion" by code_simp
  have "(case divsLoop K0 H0 (array divsShadow) 0 (cobjects divsShadow) Map.empty Map.empty of
           Inr (h', al', p') \<Rightarrow> True
         | Inl e \<Rightarrow> False)"
    by code_simp
  then obtain h' al' p' where
    d: "divsLoop K0 H0 (array divsShadow) 0 (cobjects divsShadow) Map.empty Map.empty = Inr (h', al', p')"
    by (auto split: sum.splits)
  from c1 [OF d] k1
  have p': "p' = foldl (\<lambda>p a. divPushes K0 H0 (cobjects divsShadow a) p) Map.empty [0, 2]"
    and v1: "validateDivDefinition K0 (cobjects divsShadow 0) = Valid"
    and v2: "validateDivDefinition K0 (cobjects divsShadow 2) = Valid"
    by simp_all
  from d p'
  have w1: "\<exists>h' al'. divsLoop K0 H0 (array divsShadow) 0 (cobjects divsShadow) Map.empty Map.empty
          = Inr (h', al', foldl (\<lambda>p a. divPushes K0 H0 (cobjects divsShadow a) p) Map.empty [0, 2])"
    by blast
  have x1: "foldl (\<lambda>p a. divPushes K0 H0 (cobjects divsShadow a) p) Map.empty [0, 2] ''/x''
              = Some [''a.same'']"
    by code_simp
  have k2: "candidates K0 (cobjects pagesFamily) (array pagesFamily) = [1]" by code_simp
  have o5: "children (cobjects pagesFamily 0) = [1]" by code_simp
  have "(case pagesLoop K0 H0 (getLayoutsData fsPages (DIRECTORY_APP_LAYOUTS K0)) 0 (array pagesFamily) 0
                (cobjects pagesFamily) Map.empty Map.empty of
           Inr (g', bl', um') \<Rightarrow> True
         | Inl e \<Rightarrow> False)"
    by code_simp
  then obtain g' bl' um' where
    p: "pagesLoop K0 H0 (getLayoutsData fsPages (DIRECTORY_APP_LAYOUTS K0)) 0 (array pagesFamily) 0
          (cobjects pagesFamily) Map.empty Map.empty = Inr (g', bl', um')"
    by (auto split: sum.splits)
  from c2 [OF p] k2
  have um': "um' = Map.empty(pageUriOf K0 H0 (cobjects pagesFamily 1) \<mapsto> fullName (cobjects pagesFamily 1))"
    and v3: "validatePageDefinition K0 H0 (cobjects pagesFamily 1)
               (getLayoutsData fsPages (DIRECTORY_APP_LAYOUTS K0)) = Valid"
    by simp_all
  from p um'
  have w2: "\<exists>g' bl'. pagesLoop K0 H0 (getLayoutsData fsPages (DIRECTORY_APP_LAYOUTS K0)) 0 (array pagesFamily) 0
          (cobjects pagesFamily) Map.empty Map.empty
          = Inr (g', bl', Map.empty(pageUriOf K0 H0 (cobjects pagesFamily 1)
                                      \<mapsto> fullName (cobjects pagesFamily 1)))"
    by blast
  have x2: "pageUriOf K0 H0 (cobjects pagesFamily 1) = ''/home''" by code_simp
  have x3: "fullName (cobjects pagesFamily 1) = ''p.derived''" by code_simp
  have e3: "divsLoop K0 H0 (array divsInvalid) 0 (cobjects divsInvalid) Map.empty Map.empty
              = Inl (InvalidDefinition ''a.bad'' NoVersion)"
  proof -
    have "(case divsLoop K0 H0 (array divsInvalid) 0 (cobjects divsInvalid) Map.empty Map.empty of
             Inl e \<Rightarrow> e = InvalidDefinition ''a.bad'' NoVersion | Inr r \<Rightarrow> False)"
      by code_simp
    then show ?thesis by (auto split: sum.splits)
  qed
  from c3 [OF e3]
  have w3: "\<exists>pre a post. candidates K0 (cobjects divsInvalid) (array divsInvalid) = pre @ a # post
          \<and> validateDivDefinition K0 (cobjects divsInvalid a) = Invalid NoVersion
          \<and> fullName (cobjects divsInvalid a) = ''a.bad''"
    by force
  have e4: "pagesLoop K0 H0 (getLayoutsData fsCollision (DIRECTORY_APP_LAYOUTS K0)) 0 (array pagesCollision) 0
              (cobjects pagesCollision) Map.empty Map.empty
              = Inl (PageUriCollision ''p.two'' ''/home'' ''p.one'')"
  proof -
    have "(case pagesLoop K0 H0 (getLayoutsData fsCollision (DIRECTORY_APP_LAYOUTS K0)) 0
                  (array pagesCollision) 0 (cobjects pagesCollision) Map.empty Map.empty of
             Inl e \<Rightarrow> e = PageUriCollision ''p.two'' ''/home'' ''p.one'' | Inr r \<Rightarrow> False)"
      by code_simp
    then show ?thesis by (auto split: sum.splits)
  qed
  from c4 [OF e4]
  have w4: "\<exists>pre a post. candidates K0 (cobjects pagesCollision) (array pagesCollision) = pre @ a # post
          \<and> fullName (cobjects pagesCollision a) = ''p.two''
          \<and> pageUriOf K0 H0 (cobjects pagesCollision a) = ''/home''
          \<and> foldl (\<lambda>m b. m(pageUriOf K0 H0 (cobjects pagesCollision b)
                                \<mapsto> fullName (cobjects pagesCollision b))) Map.empty pre ''/home''
               = Some ''p.one''"
    by force
  from k1 o1 o2 o3 o4 w1 x1 v1 o6 v2 k2 o5 w2 x2 x3 v3 e3 w3 e4 w4 show ?thesis by blast
qed


section \<open>The table that is built\<close>

lemma build_ok:
  assumes "buildLookupTable K H fs = Some (Inr t)"
  obtains dd pd allDivs where
    "getUiComponentsData K H fs ''div'' (DIRECTORY_APP_DIVS K) = Some (Inr dd)"
    "getUiComponentsData K H fs ''page'' (DIRECTORY_APP_PAGES K) = Some (Inr pd)"
    "divsLoop K H (array dd) 0 (cobjects dd) Map.empty Map.empty = Inr (divObjects t, allDivs, pushedDivs t)"
    "pagesLoop K H (layouts t) (length (array dd)) (array pd) 0 (cobjects pd) allDivs Map.empty
       = Inr (pageObjects t, uiComponents t, uriPagesMap t)"
    "divs t = cmap dd" "pages t = cmap pd"
  using assms unfolding buildLookupTable_def Let_def
  by (auto split: sum.splits option.splits)

text \<open>
  The two passes write the index and the disabled flag only, so the components of a
  built table are linked as the inheritance loop has left them.
\<close>

lemma built_registry_linked:
  assumes "buildLookupTable K H fs = Some (Inr t)"
  shows "linked (divObjects t)" and "linked (pageObjects t)"
proof -
  from assms obtain dd pd allDivs where
    dd: "getUiComponentsData K H fs ''div'' (DIRECTORY_APP_DIVS K) = Some (Inr dd)"
    and pd: "getUiComponentsData K H fs ''page'' (DIRECTORY_APP_PAGES K) = Some (Inr pd)"
    and dl: "divsLoop K H (array dd) 0 (cobjects dd) Map.empty Map.empty = Inr (divObjects t, allDivs, pushedDivs t)"
    and pl: "pagesLoop K H (layouts t) (length (array dd)) (array pd) 0 (cobjects pd) allDivs Map.empty
       = Inr (pageObjects t, uiComponents t, uriPagesMap t)"
    by (rule build_ok)
  from components_facts(6) [OF dd] show "linked (divObjects t)"
    by (simp add: linked_def divsLoop_same [OF dl])
  from components_facts(6) [OF pd] show "linked (pageObjects t)"
    by (simp add: linked_def pagesLoop_same [OF pl])
qed

text \<open>
  In a list without repetition every position is the last one of its name, and only in
  such a list.
\<close>

lemma isLastOfName_all_distinct:
  "(\<forall>a<length names. isLastOfName names (names ! a) a) \<longleftrightarrow> distinct names"
proof
  assume l: "\<forall>a<length names. isLastOfName names (names ! a) a"
  show "distinct names"
    unfolding distinct_conv_nth
  proof (intro allI impI)
    fix i j assume i: "i < length names" and j: "j < length names" and ne: "i \<noteq> j"
    show "names ! i \<noteq> names ! j"
    proof (cases "i < j")
      case True
      from l i have "\<forall>b. i < b \<and> b < length names \<longrightarrow> names ! b \<noteq> names ! i"
        unfolding isLastOfName_def by blast
      with True j show ?thesis by metis
    next
      case False
      with ne have ji: "j < i" by simp
      from l j have "\<forall>b. j < b \<and> b < length names \<longrightarrow> names ! b \<noteq> names ! j"
        unfolding isLastOfName_def by blast
      with ji i show ?thesis by metis
    qed
  qed
next
  assume "distinct names"
  then show "\<forall>a<length names. isLastOfName names (names ! a) a"
    by (auto simp: isLastOfName_def nth_eq_iff_index_eq)
qed

text \<open>
  Claim C3, amended. In a built table the index of a component is its position in the
  array of its type as \<open>compareRawUiComponents\<close> has sorted it (the array is the sorted
  list of the addresses, which are in the order of discovery), counted from zero for the
  divs and from the number of divs for the pages; every component of the maps \<open>divs\<close>
  and \<open>pages\<close> is in its array. The index is the position in the order of discovery
  only where the sort leaves that order as it is.
\<close>

theorem index_is_sorted_position:
  assumes "getUiComponentsData K H fs ''div'' (DIRECTORY_APP_DIVS K) = Some (Inr dd)"
    and "getUiComponentsData K H fs ''page'' (DIRECTORY_APP_PAGES K) = Some (Inr pd)"
    and "buildLookupTable K H fs = Some (Inr t)"
  shows "(\<forall>i<length (array dd). index (divObjects t (array dd ! i)) = Some i)
       \<and> (\<forall>j<length (array pd). index (pageObjects t (array pd ! j)) = Some (length (array dd) + j))
       \<and> array dd = sortArray (\<lambda>a b. compareRawUiComponents K H (cobjects dd a) (cobjects dd b))
                      [0..<length (array dd)]
       \<and> array pd = sortArray (\<lambda>a b. compareRawUiComponents K H (cobjects pd a) (cobjects pd b))
                      [0..<length (array pd)]
       \<and> (\<forall>n a. divs t n = Some a \<longrightarrow> a \<in> set (array dd))
       \<and> (\<forall>n a. pages t n = Some a \<longrightarrow> a \<in> set (array pd))"
proof -
  from assms(3) obtain dd' pd' allDivs where
    "getUiComponentsData K H fs ''div'' (DIRECTORY_APP_DIVS K) = Some (Inr dd')"
    "getUiComponentsData K H fs ''page'' (DIRECTORY_APP_PAGES K) = Some (Inr pd')"
    and dl': "divsLoop K H (array dd') 0 (cobjects dd') Map.empty Map.empty = Inr (divObjects t, allDivs, pushedDivs t)"
    and pl': "pagesLoop K H (layouts t) (length (array dd')) (array pd') 0 (cobjects pd') allDivs Map.empty
       = Inr (pageObjects t, uiComponents t, uriPagesMap t)"
    and maps': "divs t = cmap dd'" "pages t = cmap pd'"
    by (rule build_ok)
  with assms(1,2) have eq: "dd' = dd" "pd' = pd" by simp_all
  note dl = dl' [unfolded eq] and pl = pl' [unfolded eq] and maps = maps' [unfolded eq]
  have "\<forall>i<length (array dd). index (divObjects t (array dd ! i)) = Some i"
    using divsLoop_flags [OF dl array_facts(1) [OF assms(1)]] by simp
  moreover have "\<forall>j<length (array pd). index (pageObjects t (array pd ! j)) = Some (length (array dd) + j)"
    using pagesLoop_flags [OF pl array_facts(1) [OF assms(2)]] by simp
  moreover have "array dd = sortArray (\<lambda>a b. compareRawUiComponents K H (cobjects dd a) (cobjects dd b))
                      [0..<length (array dd)]"
    using components_facts(1) [OF assms(1)] array_facts(3) [OF assms(1)] by simp
  moreover have "array pd = sortArray (\<lambda>a b. compareRawUiComponents K H (cobjects pd a) (cobjects pd b))
                      [0..<length (array pd)]"
    using components_facts(1) [OF assms(2)] array_facts(3) [OF assms(2)] by simp
  moreover have "\<forall>n a. divs t n = Some a \<longrightarrow> a \<in> set (array dd)"
    using components_facts(3) [OF assms(1)] array_facts(2) [OF assms(1)] maps by auto
  moreover have "\<forall>n a. pages t n = Some a \<longrightarrow> a \<in> set (array pd)"
    using components_facts(3) [OF assms(2)] array_facts(2) [OF assms(2)] maps by auto
  ultimately show ?thesis by blast
qed

theorem index_is_sorted_position_witness:
  "getUiComponentsData K0 H0 fsSite ''div'' (DIRECTORY_APP_DIVS K0) = Some (Inr divsSite)
   \<and> getUiComponentsData K0 H0 fsSite ''page'' (DIRECTORY_APP_PAGES K0) = Some (Inr pagesSite)
   \<and> buildLookupTable K0 H0 fsSite = Some (Inr tableSite)
   \<and> array divsSite = [1, 0] \<and> array pagesSite = [0, 1]
   \<and> index (divObjects tableSite 1) = Some 0 \<and> index (divObjects tableSite 0) = Some 1
   \<and> index (pageObjects tableSite 0) = Some 2 \<and> index (pageObjects tableSite 1) = Some 3"
proof -
  have ad: "array divsSite = [1, 0]" by code_simp
  have ap: "array pagesSite = [0, 1]" by code_simp
  note t = index_is_sorted_position [OF divsSite_eq pagesSite_eq tableSite_eq]
  from t have d: "\<forall>i<length (array divsSite). index (divObjects tableSite (array divsSite ! i)) = Some i"
    by blast
  from t have p: "\<forall>j<length (array pagesSite).
      index (pageObjects tableSite (array pagesSite ! j)) = Some (length (array divsSite) + j)"
    by blast
  from d [rule_format, of 0] d [rule_format, of 1] p [rule_format, of 0] p [rule_format, of 1]
  have "index (divObjects tableSite 1) = Some 0" "index (divObjects tableSite 0) = Some 1"
    "index (pageObjects tableSite 0) = Some 2" "index (pageObjects tableSite 1) = Some 3"
    by (simp_all add: ad ap)
  with divsSite_eq pagesSite_eq tableSite_eq ad ap show ?thesis by simp
qed

text \<open>
  The claim as stated fails on \<open>fsOrder\<close>: the div \<open>b.second\<close> is the second to be
  discovered (position 1) and gets the index 0, and \<open>a.first\<close>, the first to be
  discovered, gets the index 1.
\<close>

theorem index_not_discovery_order:
  "buildLookupTable K0 H0 fsOrder = Some (Inr tableOrder)
   \<and> discoveredNames K0 fsOrder (DIRECTORY_APP_DIVS K0) = [''a.first'', ''b.second'']
   \<and> divs tableOrder ''a.first'' = Some 0 \<and> fullName (divObjects tableOrder 0) = ''a.first''
   \<and> divs tableOrder ''b.second'' = Some 1 \<and> fullName (divObjects tableOrder 1) = ''b.second''
   \<and> index (divObjects tableOrder 1) = Some 0
   \<and> index (divObjects tableOrder 0) = Some 1"
proof -
  have "discoveredNames K0 fsOrder (DIRECTORY_APP_DIVS K0) = [''a.first'', ''b.second'']"
    by code_simp
  moreover have "divs tableOrder ''a.first'' = Some 0" by code_simp
  moreover have "fullName (divObjects tableOrder 0) = ''a.first''" by code_simp
  moreover have "divs tableOrder ''b.second'' = Some 1" by code_simp
  moreover have "fullName (divObjects tableOrder 1) = ''b.second''" by code_simp
  moreover have "index (divObjects tableOrder 1) = Some 0" by code_simp
  moreover have "index (divObjects tableOrder 0) = Some 1" by code_simp
  ultimately show ?thesis using tableOrder_eq by simp
qed

text \<open>
  Claim C6, amended. In a built table the map \<open>divs\<close> has one entry for every full
  name under which discovery has found a div, and the map \<open>pages\<close> one for every full
  name under which it has found a page. The entry of a full name is the component
  discovered last under that name, enabled or disabled, extended or not; a component
  discovered before it under the same full name, in another collection, is in no entry.
  So the maps hold every discovered component exactly when no full name is discovered
  twice. Every discovered component, in a map or not, has the name and the path of its
  directory and the flag \<open>disabled\<close> that \<open>parseBoolean\<close> reads from its merged
  definition. The
  map that holds enabled components only is \<open>uiComponents\<close>.
  The addresses are the positions in the order of discovery.
\<close>

theorem maps_hold_all_discovered:
  assumes "buildLookupTable K H fs = Some (Inr t)"
  shows "(\<forall>n a. divs t n = Some a \<longleftrightarrow> isLastOfName (discoveredNames K fs (DIRECTORY_APP_DIVS K)) n a)
       \<and> (\<forall>n a. pages t n = Some a \<longleftrightarrow> isLastOfName (discoveredNames K fs (DIRECTORY_APP_PAGES K)) n a)
       \<and> (\<forall>a<length (discoveredNames K fs (DIRECTORY_APP_DIVS K)).
             fullName (divObjects t a) = discoveredNames K fs (DIRECTORY_APP_DIVS K) ! a
             \<and> path (divObjects t a) = discoveredPaths K fs (DIRECTORY_APP_DIVS K) ! a
             \<and> disabled (divObjects t a) = Some (\<not> isEnabled K (divObjects t a)))
       \<and> (\<forall>a<length (discoveredNames K fs (DIRECTORY_APP_PAGES K)).
             fullName (pageObjects t a) = discoveredNames K fs (DIRECTORY_APP_PAGES K) ! a
             \<and> path (pageObjects t a) = discoveredPaths K fs (DIRECTORY_APP_PAGES K) ! a
             \<and> disabled (pageObjects t a) = Some (\<not> isEnabled K (pageObjects t a)))
       \<and> (distinct (discoveredNames K fs (DIRECTORY_APP_DIVS K)) \<longleftrightarrow>
            (\<forall>a<length (discoveredNames K fs (DIRECTORY_APP_DIVS K)).
               divs t (discoveredNames K fs (DIRECTORY_APP_DIVS K) ! a) = Some a))
       \<and> (distinct (discoveredNames K fs (DIRECTORY_APP_PAGES K)) \<longleftrightarrow>
            (\<forall>a<length (discoveredNames K fs (DIRECTORY_APP_PAGES K)).
               pages t (discoveredNames K fs (DIRECTORY_APP_PAGES K) ! a) = Some a))
       \<and> dom (divs t) = set (discoveredNames K fs (DIRECTORY_APP_DIVS K))
       \<and> dom (pages t) = set (discoveredNames K fs (DIRECTORY_APP_PAGES K))
       \<and> (\<forall>n a. divs t n = Some a \<longrightarrow>
             fullName (divObjects t a) = n
             \<and> disabled (divObjects t a) = Some (\<not> isEnabled K (divObjects t a)))
       \<and> (\<forall>n a. pages t n = Some a \<longrightarrow>
             fullName (pageObjects t a) = n
             \<and> disabled (pageObjects t a) = Some (\<not> isEnabled K (pageObjects t a)))
       \<and> (\<forall>n a. uiComponents t n = Some (DivRef a) \<longrightarrow> isEnabled K (divObjects t a))
       \<and> (\<forall>n a. uiComponents t n = Some (PageRef a) \<longrightarrow> isEnabled K (pageObjects t a))"
proof -
  let ?dn = "discoveredNames K fs (DIRECTORY_APP_DIVS K)"
  let ?pn = "discoveredNames K fs (DIRECTORY_APP_PAGES K)"
  let ?dp = "discoveredPaths K fs (DIRECTORY_APP_DIVS K)"
  let ?pp = "discoveredPaths K fs (DIRECTORY_APP_PAGES K)"
  from assms obtain dd pd allDivs where
    dd: "getUiComponentsData K H fs ''div'' (DIRECTORY_APP_DIVS K) = Some (Inr dd)"
    and pd: "getUiComponentsData K H fs ''page'' (DIRECTORY_APP_PAGES K) = Some (Inr pd)"
    and dl: "divsLoop K H (array dd) 0 (cobjects dd) Map.empty Map.empty = Inr (divObjects t, allDivs, pushedDivs t)"
    and pl: "pagesLoop K H (layouts t) (length (array dd)) (array pd) 0 (cobjects pd) allDivs Map.empty
       = Inr (pageObjects t, uiComponents t, uriPagesMap t)"
    and maps: "divs t = cmap dd" "pages t = cmap pd"
    by (rule build_ok)
  have en_d: "isEnabled K (divObjects t a) = isEnabled K (cobjects dd a)" for a
    using divsLoop_same [OF dl, of a] by (simp add: isEnabled_def)
  have en_p: "isEnabled K (pageObjects t a) = isEnabled K (cobjects pd a)" for a
    using pagesLoop_same [OF pl, of a] by (simp add: isEnabled_def)
  have l1: "\<forall>n a. divs t n = Some a \<longleftrightarrow> isLastOfName ?dn n a"
    using components_facts(5) [OF dd] maps by simp
  have l2: "\<forall>n a. pages t n = Some a \<longleftrightarrow> isLastOfName ?pn n a"
    using components_facts(5) [OF pd] maps by simp
  have a1: "\<forall>a<length ?dn. fullName (divObjects t a) = ?dn ! a
              \<and> path (divObjects t a) = ?dp ! a
              \<and> disabled (divObjects t a) = Some (\<not> isEnabled K (divObjects t a))"
  proof (intro allI impI)
    fix a assume a: "a < length ?dn"
    with array_facts(2) [OF dd] have "a \<in> set (array dd)" by simp
    then obtain k where k: "k < length (array dd)" "array dd ! k = a"
      by (auto simp: in_set_conv_nth)
    from divsLoop_flags [OF dl array_facts(1) [OF dd] k(1)] k(2)
    have "disabled (divObjects t a) = Some (\<not> isEnabled K (cobjects dd a))" by simp
    moreover from a have "map (\<lambda>a. fullName (cobjects dd a)) [0..<length ?dn] ! a = fullName (cobjects dd a)"
      by simp
    with components_facts(2) [OF dd] have "fullName (cobjects dd a) = ?dn ! a" by simp
    with divsLoop_same [OF dl, of a] have "fullName (divObjects t a) = ?dn ! a" by simp
    moreover from components_facts(7) [OF dd] a divsLoop_same [OF dl, of a]
    have "path (divObjects t a) = ?dp ! a" by simp
    ultimately show "fullName (divObjects t a) = ?dn ! a
              \<and> path (divObjects t a) = ?dp ! a
              \<and> disabled (divObjects t a) = Some (\<not> isEnabled K (divObjects t a))"
      by (simp add: en_d)
  qed
  have a2: "\<forall>a<length ?pn. fullName (pageObjects t a) = ?pn ! a
              \<and> path (pageObjects t a) = ?pp ! a
              \<and> disabled (pageObjects t a) = Some (\<not> isEnabled K (pageObjects t a))"
  proof (intro allI impI)
    fix a assume a: "a < length ?pn"
    with array_facts(2) [OF pd] have "a \<in> set (array pd)" by simp
    then obtain k where k: "k < length (array pd)" "array pd ! k = a"
      by (auto simp: in_set_conv_nth)
    from pagesLoop_flags [OF pl array_facts(1) [OF pd] k(1)] k(2)
    have "disabled (pageObjects t a) = Some (\<not> isEnabled K (cobjects pd a))" by simp
    moreover from a have "map (\<lambda>a. fullName (cobjects pd a)) [0..<length ?pn] ! a = fullName (cobjects pd a)"
      by simp
    with components_facts(2) [OF pd] have "fullName (cobjects pd a) = ?pn ! a" by simp
    with pagesLoop_same [OF pl, of a] have "fullName (pageObjects t a) = ?pn ! a" by simp
    moreover from components_facts(7) [OF pd] a pagesLoop_same [OF pl, of a]
    have "path (pageObjects t a) = ?pp ! a" by simp
    ultimately show "fullName (pageObjects t a) = ?pn ! a
              \<and> path (pageObjects t a) = ?pp ! a
              \<and> disabled (pageObjects t a) = Some (\<not> isEnabled K (pageObjects t a))"
      by (simp add: en_p)
  qed
  have d1: "distinct ?dn \<longleftrightarrow> (\<forall>a<length ?dn. divs t (?dn ! a) = Some a)"
    using l1 by (simp add: isLastOfName_all_distinct)
  have d2: "distinct ?pn \<longleftrightarrow> (\<forall>a<length ?pn. pages t (?pn ! a) = Some a)"
    using l2 by (simp add: isLastOfName_all_distinct)
  have c1: "dom (divs t) = set ?dn"
    using components_facts(4) [OF dd] maps by simp
  have c2: "dom (pages t) = set ?pn"
    using components_facts(4) [OF pd] maps by simp
  have c3: "\<forall>n a. divs t n = Some a \<longrightarrow>
             fullName (divObjects t a) = n
             \<and> disabled (divObjects t a) = Some (\<not> isEnabled K (divObjects t a))"
  proof (intro allI impI)
    fix n a assume "divs t n = Some a"
    with l1 have "isLastOfName ?dn n a" by simp
    then have "a < length ?dn" "?dn ! a = n" by (simp_all add: isLastOfName_def)
    with a1 show "fullName (divObjects t a) = n
             \<and> disabled (divObjects t a) = Some (\<not> isEnabled K (divObjects t a))"
      by auto
  qed
  have c4: "\<forall>n a. pages t n = Some a \<longrightarrow>
             fullName (pageObjects t a) = n
             \<and> disabled (pageObjects t a) = Some (\<not> isEnabled K (pageObjects t a))"
  proof (intro allI impI)
    fix n a assume "pages t n = Some a"
    with l2 have "isLastOfName ?pn n a" by simp
    then have "a < length ?pn" "?pn ! a = n" by (simp_all add: isLastOfName_def)
    with a2 show "fullName (pageObjects t a) = n
             \<and> disabled (pageObjects t a) = Some (\<not> isEnabled K (pageObjects t a))"
      by auto
  qed
  have c5: "\<forall>n a. uiComponents t n = Some (DivRef a) \<longrightarrow> isEnabled K (divObjects t a)"
  proof (intro allI impI)
    fix n a assume "uiComponents t n = Some (DivRef a)"
    from pagesLoop_all [OF pl this] have "allDivs n = Some (DivRef a)" by auto
    from divsLoop_all [OF dl this] show "isEnabled K (divObjects t a)" by (auto simp: en_d)
  qed
  have c6: "\<forall>n a. uiComponents t n = Some (PageRef a) \<longrightarrow> isEnabled K (pageObjects t a)"
  proof (intro allI impI)
    fix n a assume u: "uiComponents t n = Some (PageRef a)"
    from pagesLoop_all [OF pl u] have "allDivs n = Some (PageRef a) \<or> isEnabled K (cobjects pd a)" by auto
    moreover have "allDivs n \<noteq> Some (PageRef a)"
      using divsLoop_all [OF dl, of n "PageRef a"] by auto
    ultimately show "isEnabled K (pageObjects t a)" by (simp add: en_p)
  qed
  from l1 l2 a1 a2 d1 d2 c1 c2 c3 c4 c5 c6 show ?thesis by blast
qed

theorem maps_hold_all_discovered_witness:
  "buildLookupTable K0 H0 fsDisabled = Some (Inr tableDisabled)
   \<and> discoveredNames K0 fsDisabled (DIRECTORY_APP_DIVS K0) = [''a.off'']
   \<and> isLastOfName [''a.off''] ''a.off'' 0
   \<and> dom (divs tableDisabled) = {''a.off''}
   \<and> dom (pages tableDisabled) = {}
   \<and> divs tableDisabled ''a.off'' = Some 0
   \<and> fullName (divObjects tableDisabled 0) = ''a.off''
   \<and> disabled (divObjects tableDisabled 0) = Some (\<not> isEnabled K0 (divObjects tableDisabled 0))
   \<and> buildLookupTable K0 H0 fsShadow = Some (Inr tableShadow)
   \<and> discoveredNames K0 fsShadow (DIRECTORY_APP_DIVS K0) = [''a.same'', ''a.same'', ''b.child'']
   \<and> \<not> distinct [''a.same'', ''a.same'', ''b.child'']
   \<and> divs tableShadow ''a.same'' = Some 1
   \<and> isLastOfName [''a.same'', ''a.same'', ''b.child''] ''a.same'' 1
   \<and> \<not> isLastOfName [''a.same'', ''a.same'', ''b.child''] ''a.same'' 0
   \<and> divs tableShadow ''a.same'' \<noteq> Some 0
   \<and> fullName (divObjects tableShadow 0) = ''a.same''
   \<and> disabled (divObjects tableShadow 0) = Some (\<not> isEnabled K0 (divObjects tableShadow 0))
   \<and> fullName (divObjects tableShadow 1) = ''a.same''
   \<and> path (divObjects tableShadow 0) = ''/app/components/c1/divs/a.same''
   \<and> path (divObjects tableShadow 1) = ''/app/components/c2/divs/a.same''
   \<and> buildLookupTable K0 H0 fsSite = Some (Inr tableSite)
   \<and> dom (pages tableSite) = {''p.base'', ''p.derived''}
   \<and> pages tableSite ''p.base'' = Some 0
   \<and> pages tableSite ''p.derived'' = Some 1
   \<and> fullName (pageObjects tableSite 0) = ''p.base''
   \<and> disabled (pageObjects tableSite 0) = Some (\<not> isEnabled K0 (pageObjects tableSite 0))
   \<and> uiComponents tableSite ''a.first'' = Some (DivRef 0)
   \<and> isEnabled K0 (divObjects tableSite 0)
   \<and> uiComponents tableSite ''p.derived'' = Some (PageRef 1)
   \<and> isEnabled K0 (pageObjects tableSite 1)"
proof -
  have nd: "discoveredNames K0 fsDisabled (DIRECTORY_APP_DIVS K0) = [''a.off'']" by code_simp
  have np: "discoveredNames K0 fsDisabled (DIRECTORY_APP_PAGES K0) = []" by code_simp
  have c: "divs tableDisabled ''a.off'' = Some 0" by code_simp
  note d = maps_hold_all_discovered [OF tableDisabled_eq, unfolded nd np]
  from d c have one:
    "isLastOfName [''a.off''] ''a.off'' 0"
    "dom (divs tableDisabled) = {''a.off''}" "dom (pages tableDisabled) = {}"
    "fullName (divObjects tableDisabled 0) = ''a.off''"
    "disabled (divObjects tableDisabled 0) = Some (\<not> isEnabled K0 (divObjects tableDisabled 0))"
    by auto
  have ns: "discoveredNames K0 fsShadow (DIRECTORY_APP_DIVS K0) = [''a.same'', ''a.same'', ''b.child'']"
    by code_simp
  have s1: "divs tableShadow ''a.same'' = Some 1" by code_simp
  note s = maps_hold_all_discovered [OF tableShadow_eq, unfolded ns]
  from s have sl: "\<forall>n a. divs tableShadow n = Some a
                     \<longleftrightarrow> isLastOfName [''a.same'', ''a.same'', ''b.child''] n a"
    by blast
  have ps: "discoveredPaths K0 fsShadow (DIRECTORY_APP_DIVS K0)
              = [''/app/components/c1/divs/a.same'', ''/app/components/c2/divs/a.same'',
                 ''/app/components/c2/divs/b.child'']"
    by code_simp
  from s have sa: "\<forall>a<length [''a.same'', ''a.same'', ''b.child''].
             fullName (divObjects tableShadow a) = [''a.same'', ''a.same'', ''b.child''] ! a
             \<and> path (divObjects tableShadow a) = discoveredPaths K0 fsShadow (DIRECTORY_APP_DIVS K0) ! a
             \<and> disabled (divObjects tableShadow a) = Some (\<not> isEnabled K0 (divObjects tableShadow a))"
    by blast
  from sl s1 have s2: "isLastOfName [''a.same'', ''a.same'', ''b.child''] ''a.same'' 1" by simp
  from s1 have s3: "divs tableShadow ''a.same'' \<noteq> Some 0" by simp
  with sl have s4: "\<not> isLastOfName [''a.same'', ''a.same'', ''b.child''] ''a.same'' 0" by simp
  from sa [rule_format, of 0] sa [rule_format, of 1] have s5:
    "fullName (divObjects tableShadow 0) = ''a.same''"
    "disabled (divObjects tableShadow 0) = Some (\<not> isEnabled K0 (divObjects tableShadow 0))"
    "fullName (divObjects tableShadow 1) = ''a.same''"
    "path (divObjects tableShadow 0) = ''/app/components/c1/divs/a.same''"
    "path (divObjects tableShadow 1) = ''/app/components/c2/divs/a.same''"
    by (simp_all add: ps)
  have s6: "\<not> distinct [''a.same'', ''a.same'', ''b.child'']" by simp
  have sp: "discoveredNames K0 fsSite (DIRECTORY_APP_PAGES K0) = [''p.base'', ''p.derived'']"
    by code_simp
  have p: "pages tableSite ''p.base'' = Some 0" by code_simp
  have ud: "uiComponents tableSite ''a.first'' = Some (DivRef 0)" by code_simp
  have up: "uiComponents tableSite ''p.derived'' = Some (PageRef 1)" by code_simp
  note e = maps_hold_all_discovered [OF tableSite_eq, unfolded sp]
  from e have ed: "distinct [''p.base'', ''p.derived''] \<longleftrightarrow>
            (\<forall>a<length [''p.base'', ''p.derived''].
               pages tableSite ([''p.base'', ''p.derived''] ! a) = Some a)"
    by blast
  then have "\<forall>a<length [''p.base'', ''p.derived''].
               pages tableSite ([''p.base'', ''p.derived''] ! a) = Some a"
    by simp
  from this [rule_format, of 1] have p1: "pages tableSite ''p.derived'' = Some 1" by simp
  from e p ud up have two:
    "dom (pages tableSite) = {''p.base'', ''p.derived''}"
    "fullName (pageObjects tableSite 0) = ''p.base''"
    "disabled (pageObjects tableSite 0) = Some (\<not> isEnabled K0 (pageObjects tableSite 0))"
    "isEnabled K0 (divObjects tableSite 0)"
    "isEnabled K0 (pageObjects tableSite 1)"
    by auto
  from one two tableDisabled_eq tableShadow_eq tableSite_eq nd ns c p p1 ud up s1 s2 s3 s4 s5 s6
  show ?thesis by simp
qed

text \<open>
  The claim as stated fails on \<open>fsDisabled\<close>: the div \<open>a.off\<close>, which its definition
  disables, is in the map \<open>divs\<close> of the table (and not in \<open>uiComponents\<close>).
\<close>

theorem disabled_div_in_divs_map:
  "buildLookupTable K0 H0 fsDisabled = Some (Inr tableDisabled)
   \<and> divs tableDisabled ''a.off'' = Some 0
   \<and> fullName (divObjects tableDisabled 0) = ''a.off''
   \<and> disabled (divObjects tableDisabled 0) = Some True
   \<and> \<not> isEnabled K0 (divObjects tableDisabled 0)
   \<and> uiComponents tableDisabled ''a.off'' = None"
proof -
  have "divs tableDisabled ''a.off'' = Some 0" by code_simp
  moreover have "fullName (divObjects tableDisabled 0) = ''a.off''" by code_simp
  moreover have "disabled (divObjects tableDisabled 0) = Some True" by code_simp
  moreover have "\<not> isEnabled K0 (divObjects tableDisabled 0)" by code_simp
  moreover have "uiComponents tableDisabled ''a.off'' = None" by code_simp
  ultimately show ?thesis using tableDisabled_eq by simp
qed

text \<open>
  Claim C8. When \<open>utils.getLookupTable\<close> throws an error, whichever it is, the error
  is the one of the build and the entry of the cache for the lookup table is what it
  was before the call: the table of an earlier build, or nothing.
\<close>

theorem failed_build_keeps_cache:
  assumes "getLookupTable K H fs configs cache = Some (Inl e, cache')"
  shows "cache' = cache \<and> buildLookupTable K H fs = Some (Inl e)"
  using assms
  by (auto simp: getLookupTable_def Let_def split: option.splits sum.splits if_splits)

theorem failed_build_keeps_cache_witness:
  "getLookupTable K0 H0 fsInvalid (JObj []) None
     = Some (Inl (InvalidDefinition ''a.bad'' NoVersion), None)
   \<and> getLookupTable K0 H0 fsInvalid (JObj []) (Some emptyTable)
     = Some (Inl (InvalidDefinition ''a.bad'' NoVersion), Some emptyTable)
   \<and> buildLookupTable K0 H0 fsInvalid = Some (Inl (InvalidDefinition ''a.bad'' NoVersion))"
proof -
  note b = buildInvalid_eq
  have g1: "getLookupTable K0 H0 fsInvalid (JObj []) None
              = Some (Inl (InvalidDefinition ''a.bad'' NoVersion), None)"
    by (simp add: getLookupTable_def b)
  have g2: "getLookupTable K0 H0 fsInvalid (JObj []) (Some emptyTable)
              = Some (Inl (InvalidDefinition ''a.bad'' NoVersion), Some emptyTable)"
    by (simp add: getLookupTable_def b)
  from failed_build_keeps_cache [OF g1] failed_build_keeps_cache [OF g2] g1 g2 b
  show ?thesis by simp
qed

end
